theory Spec2Isabelle
  imports Complex_Main
begin

section \<open>JavaScript values, objects and \<open>JSON.stringify\<close>\<close>

text \<open>
  The image processor of \<^verbatim>\<open>src/main.mjs\<close> keeps a result cache whose keys are built from
  \<^verbatim>\<open>JSON.stringify(options)\<close>, so the option objects are modelled with their property
  order. Strings are byte strings (UTF-8); option values are the primitive values of the
  \<^verbatim>\<open>ProcessingOptions\<close> typedef: booleans, strings, integer-valued numbers, \<^verbatim>\<open>null\<close> and
  \<^verbatim>\<open>undefined\<close>.
\<close>

datatype jsval = JUndefined | JNull | JBool bool | JNum int | JStr string

text \<open>An object is the list of its own properties in creation order; keys are distinct.\<close>

type_synonym jsobject = "(string \<times> jsval) list"

text \<open>\<^verbatim>\<open>obj[k] = v\<close>: an existing property keeps its place, a new one goes last.\<close>

fun put :: "string \<Rightarrow> jsval \<Rightarrow> jsobject \<Rightarrow> jsobject" where
  "put k v [] = [(k, v)]"
| "put k v (p # ps) = (if fst p = k then (k, v) # ps else p # put k v ps)"

text \<open>\<^verbatim>\<open>obj[k]\<close> on an object literal: \<^verbatim>\<open>undefined\<close> when the property is missing.\<close>

definition get :: "jsobject \<Rightarrow> string \<Rightarrow> jsval" where
  "get obj k = (case map_of obj k of None \<Rightarrow> JUndefined | Some v \<Rightarrow> v)"

text \<open>The truthiness test of \<^verbatim>\<open>if (x)\<close>.\<close>

fun truthy :: "jsval \<Rightarrow> bool" where
  "truthy JUndefined = False"
| "truthy JNull = False"
| "truthy (JBool b) = b"
| "truthy (JNum n) = (n \<noteq> 0)"
| "truthy (JStr s) = (s \<noteq> [])"

subsection \<open>Decimal numerals\<close>

definition digit :: "int \<Rightarrow> char" where
  "digit d = char_of (48 + d)"

text \<open>The digits of a number that is not negative.\<close>

function show_digits :: "int \<Rightarrow> string" where
  "show_digits n =
     (if n < 10 then [digit n] else show_digits (n div 10) @ [digit (n mod 10)])"
  by pat_completeness auto
termination
  by (relation "measure nat") auto

declare show_digits.simps [simp del]

definition show_int :: "int \<Rightarrow> string" where
  "show_int i = (if i < 0 then CHR ''-'' # show_digits (- i) else show_digits i)"

subsection \<open>Property order\<close>

text \<open>
  \<^verbatim>\<open>[[OwnPropertyKeys]]\<close> lists the array indices first, in ascending numeric order, then
  the other string keys in creation order. An array index is the canonical numeral of a
  number below \<open>2^32 - 1\<close>.
\<close>

definition is_digit :: "char \<Rightarrow> bool" where
  "is_digit c = (48 \<le> (of_char c :: int) \<and> (of_char c :: int) \<le> 57)"

definition digits_val :: "string \<Rightarrow> int" where
  "digits_val s = foldl (\<lambda>a c. 10 * a + (of_char c - 48)) 0 s"

definition array_index :: "string \<Rightarrow> int option" where
  "array_index k =
     (if k \<noteq> [] \<and> list_all is_digit k \<and> (k = ''0'' \<or> hd k \<noteq> CHR ''0'')
         \<and> digits_val k < 4294967295
      then Some (digits_val k) else None)"

definition ownProps :: "jsobject \<Rightarrow> jsobject" where
  "ownProps obj =
     sort_key (\<lambda>p. the (array_index (fst p))) (filter (\<lambda>p. array_index (fst p) \<noteq> None) obj)
     @ filter (\<lambda>p. array_index (fst p) = None) obj"

text \<open>
  Object spread, the \<^verbatim>\<open>...src\<close> of an object literal built so far as \<open>target\<close>: the
  properties of \<open>src\<close> are copied in key order.
\<close>

definition spread :: "jsobject \<Rightarrow> jsobject \<Rightarrow> jsobject" where
  "spread src target = fold (\<lambda>p. put (fst p) (snd p)) (ownProps src) target"

subsection \<open>\<open>JSON.stringify\<close>\<close>

definition hex_digit :: "int \<Rightarrow> char" where
  "hex_digit d = (if d < 10 then char_of (48 + d) else char_of (87 + d))"

definition json_escape :: "char \<Rightarrow> string" where
  "json_escape c =
     (if c = CHR 0x22 then [CHR 0x5C, CHR 0x22]
      else if c = CHR 0x5C then [CHR 0x5C, CHR 0x5C]
      else if c = CHR 0x08 then [CHR 0x5C, CHR ''b'']
      else if c = CHR 0x0C then [CHR 0x5C, CHR ''f'']
      else if c = CHR 0x0A then [CHR 0x5C, CHR ''n'']
      else if c = CHR 0x0D then [CHR 0x5C, CHR ''r'']
      else if c = CHR 0x09 then [CHR 0x5C, CHR ''t'']
      else if (of_char c :: int) < 32
        then [CHR 0x5C, CHR ''u'', CHR ''0'', CHR ''0'',
              hex_digit (of_char c div 16), hex_digit (of_char c mod 16)]
      else [c])"

definition json_quote :: "string \<Rightarrow> string" where
  "json_quote s = CHR 0x22 # concat (map json_escape s) @ [CHR 0x22]"

text \<open>A property whose value is \<^verbatim>\<open>undefined\<close> is left out of the text.\<close>

fun json_value :: "jsval \<Rightarrow> string option" where
  "json_value JUndefined = None"
| "json_value JNull = Some ''null''"
| "json_value (JBool b) = Some (if b then ''true'' else ''false'')"
| "json_value (JNum n) = Some (show_int n)"
| "json_value (JStr s) = Some (json_quote s)"

fun json_members :: "jsobject \<Rightarrow> string list" where
  "json_members [] = []"
| "json_members ((k, v) # ps) =
     (case json_value v of
        None \<Rightarrow> json_members ps
      | Some t \<Rightarrow> (json_quote k @ CHR '':'' # t) # json_members ps)"

fun join_with :: "string \<Rightarrow> string list \<Rightarrow> string" where
  "join_with sep [] = []"
| "join_with sep [x] = x"
| "join_with sep (x # y # ys) = x @ sep @ join_with sep (y # ys)"

definition stringify :: "jsobject \<Rightarrow> string" where
  "stringify obj = CHR ''{'' # join_with '','' (json_members (ownProps obj)) @ ''}''"


section \<open>Paths\<close>

text \<open>
  \<^verbatim>\<open>path.basename\<close> and \<^verbatim>\<open>path.extname\<close> of Node, for POSIX paths: the last segment of the
  path, trailing separators dropped, and that segment from its last dot on (nothing when
  the segment has no dot, when its last dot is its first character, or when it is \<^verbatim>\<open>..\<close>).
\<close>

definition basename :: "string \<Rightarrow> string" where
  "basename p = rev (takeWhile (\<lambda>c. c \<noteq> CHR ''/'') (dropWhile (\<lambda>c. c = CHR ''/'') (rev p)))"

definition extname :: "string \<Rightarrow> string" where
  "extname p =
     (let b = basename p; e = rev (takeWhile (\<lambda>c. c \<noteq> CHR ''.'') (rev b)) in
      if CHR ''.'' \<notin> set b \<or> length b = Suc (length e) \<or> b = ''..'' then [] else CHR ''.'' # e)"

text \<open>\<^verbatim>\<open>toLowerCase\<close> on the ASCII letters.\<close>

definition lower_char :: "char \<Rightarrow> char" where
  "lower_char c = (if 65 \<le> (of_char c :: int) \<and> (of_char c :: int) \<le> 90
                   then char_of (of_char c + 32 :: int) else c)"

definition toLowerCase :: "string \<Rightarrow> string" where
  "toLowerCase s = map lower_char s"

section \<open>The format table\<close>

record format_config =
  supportedInputs :: "string list"
  defaultQuality :: int
  extension :: string
  options :: jsobject

definition jpeg :: format_config where
  "jpeg = \<lparr> supportedInputs =
             [''.jpg'', ''.jpeg'', ''.png'', ''.webp'', ''.tiff'', ''.avif'', ''.gif'', ''.svg''],
           defaultQuality = 80, extension = ''.jpg'',
           options = [(''progressive'', JBool True), (''chromaSubsampling'', JStr ''4:4:4''),
                      (''mozjpeg'', JBool True)] \<rparr>"

definition png :: format_config where
  "png = \<lparr> supportedInputs =
            [''.jpg'', ''.jpeg'', ''.webp'', ''.tiff'', ''.avif'', ''.gif'', ''.svg''],
          defaultQuality = 100, extension = ''.png'',
          options = [(''compressionLevel'', JNum 6), (''palette'', JBool True)] \<rparr>"

definition webp :: format_config where
  "webp = \<lparr> supportedInputs =
             [''.jpg'', ''.jpeg'', ''.png'', ''.tiff'', ''.avif'', ''.gif'', ''.svg''],
           defaultQuality = 80, extension = ''.webp'',
           options = [(''lossless'', JBool False), (''effort'', JNum 4),
                      (''nearLossless'', JBool False), (''alphaQuality'', JNum 100)] \<rparr>"

definition avif :: format_config where
  "avif = \<lparr> supportedInputs =
             [''.jpg'', ''.jpeg'', ''.png'', ''.webp'', ''.tiff'', ''.gif'', ''.svg''],
           defaultQuality = 65, extension = ''.avif'',
           options = [(''effort'', JNum 4), (''chromaSubsampling'', JStr ''4:4:4''),
                      (''lossless'', JBool False)] \<rparr>"

definition tiff :: format_config where
  "tiff = \<lparr> supportedInputs =
             [''.jpg'', ''.jpeg'', ''.png'', ''.webp'', ''.avif'', ''.gif'', ''.svg''],
           defaultQuality = 100, extension = ''.tiff'',
           options = [(''compression'', JStr ''lzw''), (''quality'', JNum 100),
                      (''pyramid'', JBool False), (''tile'', JBool False)] \<rparr>"

definition gif :: format_config where
  "gif = \<lparr> supportedInputs =
            [''.jpg'', ''.jpeg'', ''.png'', ''.webp'', ''.tiff'', ''.avif'', ''.svg''],
          defaultQuality = 100, extension = ''.gif'',
          options = [(''colours'', JNum 256), (''dither'', JNum 1)] \<rparr>"

definition svg :: format_config where
  "svg = \<lparr> supportedInputs =
            [''.jpg'', ''.jpeg'', ''.png'', ''.webp'', ''.tiff'', ''.avif'', ''.gif''],
          defaultQuality = 100, extension = ''.svg'',
          options = [(''density'', JNum 300)] \<rparr>"

definition FORMAT_MAPPINGS :: "(string \<times> format_config) list" where
  "FORMAT_MAPPINGS =
     [(''jpeg'', jpeg), (''png'', png), (''webp'', webp), (''avif'', avif),
      (''tiff'', tiff), (''gif'', gif), (''svg'', svg)]"

text \<open>
  \<^verbatim>\<open>FORMAT_MAPPINGS[name]\<close> reads a property of an object literal: one of the seven
  descriptors, or a member inherited from \<^verbatim>\<open>Object.prototype\<close> (the lower-case names
  \<^verbatim>\<open>constructor\<close> and \<^verbatim>\<open>__proto__\<close>), which is truthy and has no \<^verbatim>\<open>supportedInputs\<close>,
  or \<^verbatim>\<open>undefined\<close>.
\<close>

datatype lookup = Descriptor format_config | Inherited | Undefined

definition lookupFormat :: "string \<Rightarrow> lookup" where
  "lookupFormat name =
     (case map_of FORMAT_MAPPINGS name of
        Some cfg \<Rightarrow> Descriptor cfg
      | None \<Rightarrow> if name = ''constructor'' \<or> name = ''__proto__'' then Inherited else Undefined)"

section \<open>Errors\<close>

text \<open>
  An \<^verbatim>\<open>Error\<close> object: one made by \<^verbatim>\<open>new Error(message)\<close> or thrown by the runtime, the file
  system or the encoder, and the wrapper that \<^verbatim>\<open>#enhanceError\<close> builds around it.
\<close>

datatype error = Error string | Enhanced string error

fun message_of :: "error \<Rightarrow> string" where
  "message_of (Error m) = m"
| "message_of (Enhanced filePath e) =
     ''Processing failed for '' @ filePath @ '': '' @ message_of e"

definition enhanceError :: "error \<Rightarrow> string \<Rightarrow> error" where
  "enhanceError e filePath = Enhanced filePath e"

definition undefined_includes :: error where
  "undefined_includes = Error ''Cannot read properties of undefined (reading 'includes')''"

text \<open>\<^verbatim>\<open>#validateFormat\<close>.\<close>

definition validateFormat :: "string \<Rightarrow> string \<Rightarrow> error + format_config" where
  "validateFormat inputPath format =
     (let inputExt = toLowerCase (extname inputPath) in
      case lookupFormat (toLowerCase format) of
        Undefined \<Rightarrow> Inl (Error (''Unsupported output format: '' @ format))
      | Inherited \<Rightarrow> Inl undefined_includes
      | Descriptor formatConfig \<Rightarrow>
          if inputExt \<notin> set (supportedInputs formatConfig)
          then Inl (Error (''Cannot convert '' @ inputExt @ '' to '' @ format
                  @ ''. Supported input formats: ''
                  @ join_with '', '' (supportedInputs formatConfig)))
          else Inr formatConfig)"

section \<open>Results\<close>

text \<open>Sizes are the integer-valued numbers that \<^verbatim>\<open>fs.stat\<close> reports.\<close>

record conversion_stats =
  inputSize :: int
  outputSize :: int
  savedSize :: int
  savingPercent :: string

record result =
  success :: bool
  message :: string
  stats :: "conversion_stats option"
  error :: "error option"

subsection \<open>Numbers\<close>

text \<open>
  JavaScript numbers are IEEE 754 doubles: a significand of at most 53 bits times a power
  of two that is at least \<open>2^-1074\<close>. A quotient or a product is the exact value rounded
  to the nearest double, to the one with the even significand on a tie; a value that
  rounds to \<open>2^1024\<close> or beyond is infinite. The sizes, timestamps and counters of the
  program are integers below \<open>2^53\<close>, which are doubles, and so are their sums and
  differences. The sign of a zero is not kept: it is not printed.
\<close>

datatype jsnumber = Finite rat | NaN | Infinity bool

text \<open>The number of binary digits of a positive integer.\<close>

function bit_length :: "int \<Rightarrow> int" where
  "bit_length n = (if n \<le> 0 then 0 else 1 + bit_length (n div 2))"
  by pat_completeness auto
termination by (relation "measure nat") auto

declare bit_length.simps [simp del]

definition pow2 :: "int \<Rightarrow> rat" where
  "pow2 e = (if 0 \<le> e then 2 ^ nat e else 1 / 2 ^ nat (- e))"

text \<open>The exponent \<open>k\<close> of a positive number: \<open>2^k \<le> q < 2^(k + 1)\<close>.\<close>

definition exponent :: "rat \<Rightarrow> int" where
  "exponent q =
     (let (a, b) = quotient_of q;
          k = bit_length a - bit_length b in
      if pow2 k \<le> q then k else k - 1)"

text \<open>The nearest integer, the even one on a tie.\<close>

definition round_even :: "rat \<Rightarrow> int" where
  "round_even z =
     (let f = \<lfloor>z\<rfloor>; r = z - of_int f in
      if r < 1 / 2 then f else if 1 / 2 < r then f + 1 else if even f then f else f + 1)"

text \<open>The nearest double, with no bound on the magnitude.\<close>

definition to_double :: "rat \<Rightarrow> rat" where
  "to_double q =
     (if q = 0 then 0
      else let e = max (exponent \<bar>q\<bar> - 52) (- 1074);
               m = round_even (\<bar>q\<bar> / pow2 e)
           in sgn q * of_int m * pow2 e)"

text \<open>The double that an operation with the exact value \<open>q\<close> returns.\<close>

definition rounded :: "rat \<Rightarrow> jsnumber" where
  "rounded q =
     (let d = to_double q in
      if d \<noteq> 0 \<and> 1024 \<le> exponent \<bar>d\<bar> then Infinity (q < 0) else Finite d)"

subsection \<open>Number formatting\<close>

text \<open>
  \<^verbatim>\<open>x.toFixed(d)\<close> takes the nearest numeral with \<open>d\<close> decimals of the magnitude, the
  larger one on a tie, and keeps the sign of \<open>x\<close>; the numeral is printed in plain decimal
  notation, as JavaScript does below \<open>10^21\<close>.
\<close>

definition pad_zeros :: "nat \<Rightarrow> string \<Rightarrow> string" where
  "pad_zeros n s = replicate (n - length s) CHR ''0'' @ s"

definition fixed_text :: "nat \<Rightarrow> int \<Rightarrow> string" where
  "fixed_text d n =
     (let m = pad_zeros (Suc d) (show_digits n) in
      if d = 0 then m else take (length m - d) m @ CHR ''.'' # drop (length m - d) m)"

definition round_scaled :: "nat \<Rightarrow> rat \<Rightarrow> int" where
  "round_scaled d x = \<lfloor>\<bar>x\<bar> * 10 ^ d + 1 / 2\<rfloor>"

definition toFixed :: "nat \<Rightarrow> rat \<Rightarrow> string" where
  "toFixed d x = (if x < 0 then ''-'' else []) @ fixed_text d (round_scaled d x)"

text \<open>
  The value of \<^verbatim>\<open>(savedSize / inputSize) * 100\<close>: a number, or for an empty input file
  \<^verbatim>\<open>NaN\<close> or an infinity.
\<close>

definition percentage :: "int \<Rightarrow> int \<Rightarrow> jsnumber" where
  "percentage saved inSize =
     (if inSize = 0 then (if saved = 0 then NaN else Infinity (saved < 0))
      else case rounded (of_int saved / of_int inSize) of
             Finite q \<Rightarrow> rounded (q * 100)
           | other \<Rightarrow> other)"

text \<open>\<^verbatim>\<open>x.toFixed(1)\<close>.\<close>

fun toFixed1 :: "jsnumber \<Rightarrow> string" where
  "toFixed1 (Finite x) = toFixed 1 x"
| "toFixed1 NaN = ''NaN''"
| "toFixed1 (Infinity neg) = (if neg then ''-Infinity'' else ''Infinity'')"

text \<open>
  \<^verbatim>\<open>`${Math.abs(x.toFixed(1))}`\<close>: the text with one decimal is read back as a number, whose
  magnitude is printed in the shortest form that reads back as the same double. Below
  \<open>10^14\<close> that is the numeral with one decimal itself, without a final \<^verbatim>\<open>.0\<close>.
\<close>

fun absText :: "jsnumber \<Rightarrow> string" where
  "absText (Finite x) =
     (let n = round_scaled 1 x in
      if n mod 10 = 0 then show_digits (n div 10) else fixed_text 1 n)"
| "absText NaN = ''NaN''"
| "absText (Infinity neg) = ''Infinity''"

subsection \<open>\<open>#formatResultMessage\<close> and \<open>#generateResult\<close>\<close>

definition warning_sign :: string where
  "warning_sign = [CHR 0xE2, CHR 0x9A, CHR 0xA0, CHR 0xEF, CHR 0xB8, CHR 0x8F]"

definition check_mark :: string where
  "check_mark = [CHR 0xE2, CHR 0x9C, CHR 0x85]"

definition formatResultMessage :: "string \<Rightarrow> int \<Rightarrow> int \<Rightarrow> jsnumber \<Rightarrow> string" where
  "formatResultMessage fileName inSize outSize percent =
     (let prefix = (if outSize > inSize then warning_sign @ '' Size increased''
                    else check_mark @ '' Size reduced'') in
      prefix @ '' - '' @ fileName
      @ CHR 0x0A # ''    Original: '' @ toFixed 2 (to_double (of_int inSize / 1024)) @ ''KB''
      @ CHR 0x0A # ''    New: '' @ toFixed 2 (to_double (of_int outSize / 1024)) @ ''KB''
      @ CHR 0x0A # ''    Change: '' @ (if outSize > inSize then ''+'' else ''-'')
      @ absText percent @ ''%'')"

definition generateResult :: "string \<Rightarrow> int \<Rightarrow> int \<Rightarrow> result" where
  "generateResult filePath inSize outSize =
     (let saved = inSize - outSize;
          percent = percentage saved inSize;
          fileName = basename filePath in
      \<lparr> success = True,
        message = formatResultMessage fileName inSize outSize percent,
        stats = Some \<lparr> inputSize = inSize, outputSize = outSize, savedSize = saved,
                       savingPercent = (if saved < 0 then CHR ''+'' # absText percent
                                        else CHR ''-'' # toFixed1 percent) \<rparr>,
        error = None \<rparr>)"


section \<open>The processor and its environment\<close>

text \<open>
  The processor owns its statistics and its cache. Everything else is outside it: the file
  system, the encoder (\<^verbatim>\<open>sharp\<close>), the clock and the caller's progress callback. A call
  is given the answers of the outside world as an argument, one field for each request
  the code makes, so that every way the outside can answer is a case of the model; the
  requests themselves are appended to a trace. Output paths only travel from the caller
  to the file system and the encoder and are not modelled.
\<close>

record file_stat =
  isFile :: bool
  size' :: int

text \<open>What the outside answers during one \<^verbatim>\<open>processFile\<close> call; a text is the message of
  the error thrown.\<close>

record env =
  now_start :: int
  mkdir :: "string option"
  access :: "string option"
  stat_file :: "string + file_stat"
  stat_input :: "string + file_stat"
  toFile :: "string option"
  stat_output :: "string + file_stat"
  unlink :: "string option"
  now_complete :: int

record progress_event =
  file' :: string
  progress :: rat
  result :: result

text \<open>The requests made to the outside, the callback's invocations and the console output.\<close>

datatype event =
    Mkdir
  | Access string
  | Stat string
  | ToFile string jsobject
  | StatOutput
  | Unlink string
  | Readdir string
  | Callback progress_event
  | ConsoleError error

record statistics =
  processed :: nat
  failed :: nat
  skipped :: nat
  totalSaved :: int
  startTime :: "int option"
  endTime :: "int option"

record processor =
  statistics :: statistics
  cache :: "string \<rightharpoonup> result"
  trace :: "event list"

definition new_statistics :: statistics where
  "new_statistics = \<lparr> processed = 0, failed = 0, skipped = 0, totalSaved = 0,
                        startTime = None, endTime = None \<rparr>"

definition new_processor :: processor where
  "new_processor = \<lparr> statistics = new_statistics, cache = Map.empty, trace = [] \<rparr>"

definition logEvent :: "event \<Rightarrow> processor \<Rightarrow> processor" where
  "logEvent ev p = p\<lparr> trace := trace p @ [ev] \<rparr>"

subsection \<open>Event handlers\<close>

definition handleError :: "error \<Rightarrow> processor \<Rightarrow> processor" where
  "handleError err p = logEvent (ConsoleError err) p"

definition handleProcessingStart :: "int \<Rightarrow> processor \<Rightarrow> processor" where
  "handleProcessingStart now p = p\<lparr> statistics := (statistics p)\<lparr> startTime := Some now \<rparr> \<rparr>"

definition handleProcessingComplete :: "int \<Rightarrow> processor \<Rightarrow> processor" where
  "handleProcessingComplete now p = p\<lparr> statistics := (statistics p)\<lparr> endTime := Some now \<rparr> \<rparr>"

subsection \<open>\<open>#validateFile\<close>\<close>

definition validateFile :: "env \<Rightarrow> string \<Rightarrow> processor \<Rightarrow> error option \<times> processor" where
  "validateFile e filePath p =
     (let p1 = logEvent (Access filePath) p in
      case access e of
        Some m \<Rightarrow> (Some (Error (''Invalid file path: '' @ m)), p1)
      | None \<Rightarrow>
          let p2 = logEvent (Stat filePath) p1 in
          case stat_file e of
            Inl m \<Rightarrow> (Some (Error (''Invalid file path: '' @ m)), p2)
          | Inr s \<Rightarrow>
              if \<not> isFile s then (Some (Error ''Invalid file path: Path is not a file''), p2)
              else (None, p2))"

subsection \<open>\<open>#processImage\<close>\<close>

definition cacheKey :: "string \<Rightarrow> jsobject \<Rightarrow> string" where
  "cacheKey filePath opts = filePath @ '':'' @ stringify opts"

text \<open>The end of the \<^verbatim>\<open>try\<close> block: the result is cached and counted.\<close>

definition store :: "string \<Rightarrow> result \<Rightarrow> processor \<Rightarrow> processor" where
  "store key r p =
     p\<lparr> cache := (cache p)(key \<mapsto> r),
        statistics := (statistics p)
          \<lparr> processed := Suc (processed (statistics p)),
            totalSaved := totalSaved (statistics p) + savedSize (the (stats r)) \<rparr> \<rparr>"

text \<open>The body of the \<^verbatim>\<open>try\<close> block; \<open>Inl\<close> is the error thrown inside it.\<close>

definition tryProcessImage ::
  "env \<Rightarrow> string \<Rightarrow> jsobject \<Rightarrow> processor \<Rightarrow> (error + result) \<times> processor" where
  "tryProcessImage e filePath opts p =
     (case validateFile e filePath p of
        (Some err, p1) \<Rightarrow> (Inl err, p1)
      | (None, p1) \<Rightarrow>
          let p2 = logEvent (Stat filePath) p1 in
          case stat_input e of
            Inl m \<Rightarrow> (Inl (Error m), p2)
          | Inr si \<Rightarrow>
              let key = cacheKey filePath opts in
              case cache p2 key of
                Some r \<Rightarrow>
                  (Inr r, p2\<lparr> statistics := (statistics p2)
                                \<lparr> skipped := Suc (skipped (statistics p2)) \<rparr> \<rparr>)
              | None \<Rightarrow>
                  let allOptions = filter (\<lambda>q. fst q \<noteq> ''format'') (ownProps opts);
                      p3 = logEvent (ToFile filePath allOptions) p2 in
                  case toFile e of
                    Some m \<Rightarrow> (Inl (Error m), p3)
                  | None \<Rightarrow>
                      let p4 = logEvent StatOutput p3 in
                      case stat_output e of
                        Inl m \<Rightarrow> (Inl (Error m), p4)
                      | Inr so \<Rightarrow>
                          let r = generateResult filePath (size' si) (size' so) in
                          if truthy (get opts ''remove'') then
                            (let p5 = logEvent (Unlink filePath) p4 in
                             case unlink e of
                               Some m \<Rightarrow> (Inl (Error m), p5)
                             | None \<Rightarrow> (Inr r, store key r p5))
                          else (Inr r, store key r p4))"

text \<open>The \<^verbatim>\<open>catch\<close> clause counts the failure and throws the enhanced error.\<close>

definition processImage ::
  "env \<Rightarrow> string \<Rightarrow> jsobject \<Rightarrow> processor \<Rightarrow> (error + result) \<times> processor" where
  "processImage e filePath opts p =
     (case tryProcessImage e filePath opts p of
        (Inr r, p') \<Rightarrow> (Inr r, p')
      | (Inl err, p') \<Rightarrow>
          (Inl (enhanceError err filePath),
           p'\<lparr> statistics := (statistics p')\<lparr> failed := Suc (failed (statistics p')) \<rparr> \<rparr>))"

subsection \<open>\<open>processFile\<close>\<close>

text \<open>
  \<^verbatim>\<open>{ ...formatConfig.options, quality: formatConfig.defaultQuality, format,
  ...processingOptions }\<close>
\<close>

definition mergedOptions :: "format_config \<Rightarrow> string \<Rightarrow> jsobject \<Rightarrow> jsobject" where
  "mergedOptions formatConfig format processingOptions =
     spread processingOptions
       (put ''format'' (JStr format)
          (put ''quality'' (JNum (defaultQuality formatConfig))
             (spread (options formatConfig) [])))"

definition processFile ::
  "env \<Rightarrow> string \<Rightarrow> string \<Rightarrow> jsobject \<Rightarrow> processor \<Rightarrow> (error + result) \<times> processor" where
  "processFile e input format processingOptions p =
     (let p0 = handleProcessingStart (now_start e) p in
      case validateFormat input format of
        Inl err \<Rightarrow> (Inl err, handleError err p0)
      | Inr formatConfig \<Rightarrow>
          let p1 = logEvent Mkdir p0 in
          case mkdir e of
            Some m \<Rightarrow> (Inl (Error m), handleError (Error m) p1)
          | None \<Rightarrow>
              (case processImage e input
                      (mergedOptions formatConfig format processingOptions) p1 of
                 (Inl err, p2) \<Rightarrow> (Inl err, handleError err p2)
               | (Inr r, p2) \<Rightarrow> (Inr r, handleProcessingComplete (now_complete e) p2)))"

subsection \<open>\<open>processFolder\<close>\<close>

text \<open>
  What the outside answers during one \<^verbatim>\<open>processFolder\<close> call: the clock at its two
  events, \<^verbatim>\<open>fs.mkdir\<close>, the directory listing, and the answers while the \<open>i\<close>-th eligible
  file is processed.
\<close>

record batch_env =
  batch_start :: int
  batch_mkdir :: "string option"
  readdir :: "string + string list"
  file_env :: "nat \<Rightarrow> env"
  batch_complete :: int

text \<open>A progress callback returns (\<open>None\<close>) or throws an error with a message.\<close>

type_synonym callback = "progress_event \<Rightarrow> string option"

definition failure :: "error \<Rightarrow> result" where
  "failure err = \<lparr> success = False, message = message_of err, stats = None, error = Some err \<rparr>"

text \<open>
  One turn of the \<^verbatim>\<open>for\<close> loop over \<^verbatim>\<open>imageFiles.entries()\<close>. An error thrown by the
  callback is caught by the same \<^verbatim>\<open>catch\<close> as an error of \<^verbatim>\<open>processFile\<close>, after the
  result has been pushed. The progress \<^verbatim>\<open>((index + 1) / imageFiles.length) * 100\<close> is a
  quotient of positive integers, so it is finite.
\<close>

definition loopBody ::
  "(string \<Rightarrow> string) \<Rightarrow> (nat \<Rightarrow> env) \<Rightarrow> string \<Rightarrow> jsobject \<Rightarrow> callback option \<Rightarrow> nat
     \<Rightarrow> nat \<times> string \<Rightarrow> result list \<times> processor \<Rightarrow> result list \<times> processor" where
  "loopBody inputOf envs format processingOptions cb len entry acc =
     (case (entry, acc) of ((index, file), (results, p)) \<Rightarrow>
        (case processFile (envs index) (inputOf file) format processingOptions p of
           (Inr r, p') \<Rightarrow>
             (case cb of
                None \<Rightarrow> (results @ [r], p')
              | Some progressCallback \<Rightarrow>
                  let ev = \<lparr> file' = file,
                             progress = to_double (to_double (of_nat (index + 1) / of_nat len) * 100),
                             result = r \<rparr>;
                      p'' = logEvent (Callback ev) p' in
                  (case progressCallback ev of
                     None \<Rightarrow> (results @ [r], p'')
                   | Some m \<Rightarrow> (results @ [r, failure (Error m)], p'')))
         | (Inl err, p') \<Rightarrow> (results @ [failure err], p')))"

fun forEntries ::
  "(string \<Rightarrow> string) \<Rightarrow> (nat \<Rightarrow> env) \<Rightarrow> string \<Rightarrow> jsobject \<Rightarrow> callback option \<Rightarrow> nat
     \<Rightarrow> (nat \<times> string) list \<Rightarrow> result list \<times> processor \<Rightarrow> result list \<times> processor" where
  "forEntries inputOf envs format processingOptions cb len [] acc = acc"
| "forEntries inputOf envs format processingOptions cb len (entry # rest) acc =
     forEntries inputOf envs format processingOptions cb len rest
       (loopBody inputOf envs format processingOptions cb len entry acc)"

text \<open>The files of the listing that the target format accepts.\<close>

definition imageFiles :: "format_config \<Rightarrow> string list \<Rightarrow> string list" where
  "imageFiles formatConfig files =
     filter (\<lambda>file. toLowerCase (extname file) \<in> set (supportedInputs formatConfig)) files"

text \<open>
  \<open>join\<close> stands for \<^verbatim>\<open>path.join\<close> of Node, so that the input path of a listed file is
  \<open>join folder file\<close>.
\<close>

definition processFolder ::
  "(string \<Rightarrow> string \<Rightarrow> string) \<Rightarrow> batch_env \<Rightarrow> string \<Rightarrow> string \<Rightarrow> jsobject
     \<Rightarrow> callback option \<Rightarrow> processor \<Rightarrow> (error + result list) \<times> processor" where
  "processFolder join e folder format processingOptions cb p =
     (case lookupFormat (toLowerCase format) of
        Undefined \<Rightarrow> (Inl (Error (''Unsupported format: '' @ format)), p)
      | found \<Rightarrow>
          let p0 = handleProcessingStart (batch_start e) p;
              p1 = logEvent Mkdir p0 in
          case batch_mkdir e of
            Some m \<Rightarrow> (Inl (Error m), handleError (Error m) p1)
          | None \<Rightarrow>
              let p2 = logEvent (Readdir folder) p1 in
              case readdir e of
                Inl m \<Rightarrow> (Inl (Error m), handleError (Error m) p2)
              | Inr files \<Rightarrow>
                  (case found of
                     Descriptor formatConfig \<Rightarrow>
                       let selected = imageFiles formatConfig files;
                           (results, p3) =
                             forEntries (join folder) (file_env e) format processingOptions cb
                               (length selected) (enumerate 0 selected) ([], p2)
                       in (Inr results, handleProcessingComplete (batch_complete e) p3)
                   | _ \<Rightarrow>
                       if files = [] then (Inr [], handleProcessingComplete (batch_complete e) p2)
                       else (Inl undefined_includes, handleError undefined_includes p2)))"

subsection \<open>Statistics and cache\<close>

record snapshot = statistics +
  processingTime :: "rat option"
  averageSaving :: "string option"

definition getStats :: "processor \<Rightarrow> snapshot" where
  "getStats p =
     (let s = statistics p in
      statistics.extend s
        (snapshot.fields
           (case endTime s of
              None \<Rightarrow> None
            | Some t \<Rightarrow>
                if t = 0 then None
                else Some (to_double
                             ((of_int t - of_int (case startTime s of None \<Rightarrow> 0 | Some t0 \<Rightarrow> t0))
                              / 1000)))
           (if processed s = 0 then None
            else Some (toFixed 2
                         (to_double
                            (to_double (of_int (totalSaved s) / of_nat (processed s)) / 1024))
                       @ '' KB''))))"

definition clearCache :: "processor \<Rightarrow> processor" where
  "clearCache p = p\<lparr> cache := Map.empty \<rparr>"

definition resetStats :: "processor \<Rightarrow> processor" where
  "resetStats p = p\<lparr> statistics := new_statistics \<rparr>"


section \<open>Notions used in the statements\<close>


text \<open>
  An error arises inside the processing stage: the validation of the input file, a stat,
  the encoder or the deletion of the original fails (the last three after a cache miss).
\<close>

definition processingStageError :: "env \<Rightarrow> string \<Rightarrow> jsobject \<Rightarrow> processor \<Rightarrow> bool" where
  "processingStageError e filePath opts p =
     (access e \<noteq> None
      \<or> (case stat_file e of Inl m \<Rightarrow> True | Inr s \<Rightarrow> \<not> isFile s)
      \<or> isl (stat_input e)
      \<or> (cache p (cacheKey filePath opts) = None
          \<and> (toFile e \<noteq> None \<or> isl (stat_output e)
               \<or> (truthy (get opts ''remove'') \<and> unlink e \<noteq> None))))"

subsection \<open>Sample runs\<close>

text \<open>An environment in which a file of 204800 bytes is converted to one of 122880 bytes.\<close>

definition sample_env :: env where
  "sample_env = \<lparr> now_start = 1000, mkdir = None, access = None,
                   stat_file = Inr \<lparr> isFile = True, size' = 204800 \<rparr>,
                   stat_input = Inr \<lparr> isFile = True, size' = 204800 \<rparr>,
                   toFile = None,
                   stat_output = Inr \<lparr> isFile = True, size' = 122880 \<rparr>,
                   unlink = None, now_complete = 1500 \<rparr>"

text \<open>The same conversion requested twice of a new processor.\<close>

definition first_call :: "(error + result) \<times> processor" where
  "first_call =
     processFile sample_env ''in/a.png'' ''webp'' [(''quality'', JNum 80)] new_processor"

definition second_call :: "(error + result) \<times> processor" where
  "second_call =
     processFile sample_env ''in/a.png'' ''webp'' [(''quality'', JNum 80)] (snd first_call)"



text \<open>A conversion with \<^verbatim>\<open>remove: true\<close> in which \<^verbatim>\<open>fs.unlink\<close> fails.\<close>

definition unlink_fails_env :: env where
  "unlink_fails_env = sample_env\<lparr> unlink := Some ''EPERM: operation not permitted'' \<rparr>"

definition delete_fails :: "(error + result) \<times> processor" where
  "delete_fails =
     processFile unlink_fails_env ''in/a.png'' ''webp'' [(''remove'', JBool True)] new_processor"

subsection \<open>Batches\<close>

text \<open>Every cached result is a success; so it is for a new processor and after every call.\<close>

definition cached_successes :: "processor \<Rightarrow> bool" where
  "cached_successes p = (\<forall>key r. cache p key = Some r \<longrightarrow> success r)"

text \<open>The progress callback's invocations, in order.\<close>

fun progressLog :: "event list \<Rightarrow> progress_event list" where
  "progressLog [] = []"
| "progressLog (Callback ev # evs) = ev # progressLog evs"
| "progressLog (_ # evs) = progressLog evs"




text \<open>
  \<^verbatim>\<open>path.join\<close> of a directory name without a final separator and an entry name.
\<close>

definition sample_join :: "string \<Rightarrow> string \<Rightarrow> string" where
  "sample_join dir name = dir @ ''/'' @ name"









text \<open>
  A folder of two images, converted without errors: the batch starts at 1000, the files
  at 2000 and 3000, each taking 500, and the batch completes at 4000.
\<close>

definition timed_env :: "int \<Rightarrow> env" where
  "timed_env t = sample_env\<lparr> now_start := t, now_complete := t + 500 \<rparr>"

definition timed_batch :: batch_env where
  "timed_batch =
     \<lparr> batch_start = 1000, batch_mkdir = None,
       readdir = Inr [''a.png'', ''b.png''],
       file_env = (\<lambda>i. if i = 0 then timed_env 2000 else timed_env 3000),
       batch_complete = 4000 \<rparr>"

definition timed_run :: "(error + result list) \<times> processor" where
  "timed_run = processFolder sample_join timed_batch ''in'' ''webp'' [] None new_processor"

subsection \<open>Cache keys\<close>

text \<open>
  The keys that the merged options hold before the caller's options are copied over
  them: those of the format's default options, \<^verbatim>\<open>quality\<close> and \<^verbatim>\<open>format\<close>.
\<close>

definition defaultKeys :: "format_config \<Rightarrow> string list" where
  "defaultKeys formatConfig = map fst (options formatConfig) @ [''quality'', ''format'']"

text \<open>
  Caller options that set the default options of \<^verbatim>\<open>jpeg\<close> and \<^verbatim>\<open>png\<close> to \<^verbatim>\<open>undefined\<close> and
  carry a \<^verbatim>\<open>quality\<close> and a \<^verbatim>\<open>format\<close> entry of their own; a file converted with them to
  \<^verbatim>\<open>jpeg\<close> and then to \<^verbatim>\<open>png\<close>.
\<close>

definition overriding_options :: jsobject where
  "overriding_options =
     [(''progressive'', JUndefined), (''chromaSubsampling'', JUndefined),
      (''mozjpeg'', JUndefined), (''compressionLevel'', JUndefined), (''palette'', JUndefined),
      (''quality'', JNum 80), (''format'', JStr ''jpeg'')]"

definition jpeg_then_png :: "(error + result) \<times> processor" where
  "jpeg_then_png =
     processFile sample_env ''in/a.webp'' ''png'' overriding_options
       (snd (processFile sample_env ''in/a.webp'' ''jpeg'' overriding_options new_processor))"

text \<open>
  A JSON text other than a string: it is not empty and has no comma, closing brace or
  quotation mark.
\<close>

definition plain :: "string \<Rightarrow> bool" where
  "plain t = (t \<noteq> [] \<and> (\<forall>c \<in> set t. c \<noteq> CHR '','' \<and> c \<noteq> CHR ''}'' \<and> c \<noteq> CHR 0x22))"

section \<open>Numerals\<close>

lemma of_char_digit: "0 \<le> d \<Longrightarrow> d \<le> 9 \<Longrightarrow> (of_char (digit d) :: int) = 48 + d"
  by (simp add: digit_def)

lemma is_digit_digit: "0 \<le> d \<Longrightarrow> d \<le> 9 \<Longrightarrow> is_digit (digit d)"
  by (simp add: is_digit_def of_char_digit)

lemma digit_not_point: "0 \<le> d \<Longrightarrow> d \<le> 9 \<Longrightarrow> digit d \<noteq> CHR ''.''"
proof
  assume a: "0 \<le> d" "d \<le> 9" and "digit d = CHR ''.''"
  then have "(of_char (digit d) :: int) = of_char (CHR ''.'')" by simp
  with a show False by (simp add: of_char_digit)
qed


lemma digits_val_snoc: "digits_val (s @ [c]) = 10 * digits_val s + (of_char c - 48)"
  by (simp add: digits_val_def)

text \<open>Printing a number and reading the digits back gives the number.\<close>

lemma show_digits_props:
  "0 \<le> n \<Longrightarrow> show_digits n \<noteq> [] \<and> list_all is_digit (show_digits n)
      \<and> digits_val (show_digits n) = n \<and> CHR ''.'' \<notin> set (show_digits n)"
proof (induction n rule: show_digits.induct)
  case (1 n)
  show ?case
  proof (cases "n < 10")
    case True
    with "1.prems" show ?thesis
      using digit_not_point[of n]
      by (subst (1 2 3 4) show_digits.simps)
         (simp add: is_digit_digit digits_val_def of_char_digit)
  next
    case False
    then have "0 \<le> n div 10" by simp
    with "1.IH" False
    have ih: "show_digits (n div 10) \<noteq> [] \<and> list_all is_digit (show_digits (n div 10))
      \<and> digits_val (show_digits (n div 10)) = n div 10
      \<and> CHR ''.'' \<notin> set (show_digits (n div 10))" by simp
    have m: "0 \<le> n mod 10" "n mod 10 \<le> 9" by simp_all
    from False ih m digit_not_point[OF m] show ?thesis
      by (subst (1 2 3 4) show_digits.simps)
         (simp add: is_digit_digit digits_val_snoc of_char_digit)
  qed
qed








section \<open>Double arithmetic\<close>




lemma pow2_powi: "pow2 e = 2 powi e"
  by (simp add: pow2_def power_int_def inverse_eq_divide power_one_over)

lemma pow2_pos: "0 < pow2 e"
  by (simp add: pow2_powi zero_less_power_int)











lemma round_even_nonneg: "0 \<le> z \<Longrightarrow> 0 \<le> round_even z"
  unfolding round_even_def Let_def by (auto simp: zero_le_floor; linarith)

lemma to_double_minus: "to_double (- q) = - to_double q"
  by (simp add: to_double_def Let_def sgn_minus)

lemma to_double_sign: "0 \<le> q \<Longrightarrow> 0 \<le> to_double q"
proof -
  assume "0 \<le> q"
  then show ?thesis
    unfolding to_double_def Let_def
    by (auto simp: sgn_if intro!: mult_nonneg_nonneg round_even_nonneg divide_nonneg_pos pow2_pos less_imp_le[OF pow2_pos])
qed




lemma to_double_abs: "\<bar>to_double q\<bar> = to_double \<bar>q\<bar>"
proof (cases "q < 0")
  case True
  then have "0 \<le> - q" by simp
  from to_double_sign[OF this] True show ?thesis by (simp add: to_double_minus abs_if)
next
  case False
  then have "0 \<le> q" by simp
  from to_double_sign[OF this] \<open>0 \<le> q\<close> show ?thesis by simp
qed










section \<open>The format table\<close>

lemma other_formats_exclude_own_extension:
  "\<forall>(name, cfg) \<in> set FORMAT_MAPPINGS.
     name \<noteq> ''jpeg'' \<longrightarrow> extension cfg \<notin> set (supportedInputs cfg)"
  by (simp add: FORMAT_MAPPINGS_def png_def webp_def avif_def tiff_def gif_def svg_def)

text \<open>
  C5. No descriptor of the format table accepts the extension of its own output format.
  Six descriptors do not; the \<^verbatim>\<open>jpeg\<close> descriptor writes \<^verbatim>\<open>.jpg\<close> files and lists \<^verbatim>\<open>.jpg\<close>
  among its inputs, so the conversion of \<^verbatim>\<open>photo.jpg\<close> to \<^verbatim>\<open>jpeg\<close> passes the format check.
\<close>

theorem jpeg_accepts_its_own_extension:
  "map_of FORMAT_MAPPINGS ''jpeg'' = Some jpeg
   \<and> extension jpeg = ''.jpg''
   \<and> extension jpeg \<in> set (supportedInputs jpeg)
   \<and> validateFormat ''photo.jpg'' ''jpeg'' = Inr jpeg"
  by code_simp

section \<open>Single conversions\<close>

lemmas call_defs = processFile_def processImage_def tryProcessImage_def validateFile_def
  handleProcessingStart_def handleProcessingComplete_def handleError_def logEvent_def store_def
  enhanceError_def Let_def

lemma tryProcessImage_fails_iff:
  "isl (fst (tryProcessImage e filePath opts p)) = processingStageError e filePath opts p"
  by (auto simp: tryProcessImage_def validateFile_def logEvent_def store_def processingStageError_def Let_def
      split: option.splits sum.splits prod.splits if_splits)

lemma processImage_failed:
  "failed (statistics (snd (processImage e filePath opts p)))
     = failed (statistics p) + (if processingStageError e filePath opts p then 1 else 0)"
  by (auto simp: processImage_def tryProcessImage_def validateFile_def logEvent_def store_def processingStageError_def Let_def
      split: option.splits sum.splits prod.splits if_splits)

text \<open>
  C10. A single conversion that fails the format check (unknown target format, or input
  extension not accepted by it) throws before the processing stage: no file-system or
  encoder request is made, and the counters \<open>processed\<close>, \<open>failed\<close>, \<open>skipped\<close>, \<open>totalSaved\<close>
  and the cache are as before. The \<open>failed\<close> counter goes up by one exactly when the error
  arises inside the processing stage, and never otherwise.
\<close>

theorem format_errors_leave_counters_and_cache:
  "(validateFormat input format = Inl err \<longrightarrow>
      fst (processFile e input format processingOptions p) = Inl err
      \<and> snd (processFile e input format processingOptions p)
          = p\<lparr> statistics := (statistics p)\<lparr> startTime := Some (now_start e) \<rparr>,
                trace := trace p @ [ConsoleError err] \<rparr>)
   \<and> failed (statistics (snd (processFile e input format processingOptions p)))
       = failed (statistics p)
         + (case validateFormat input format of
              Inl err \<Rightarrow> 0
            | Inr formatConfig \<Rightarrow>
                if mkdir e = None
                   \<and> processingStageError e input
                        (mergedOptions formatConfig format processingOptions) p
                then 1 else 0)"
proof -
  let ?p1 = "logEvent Mkdir (handleProcessingStart (now_start e) p)"
  have pre: "validateFormat input format = Inl err \<longrightarrow>
      fst (processFile e input format processingOptions p) = Inl err
      \<and> snd (processFile e input format processingOptions p)
          = p\<lparr> statistics := (statistics p)\<lparr> startTime := Some (now_start e) \<rparr>,
                trace := trace p @ [ConsoleError err] \<rparr>"
    by (simp add: processFile_def handleError_def logEvent_def handleProcessingStart_def)
  have cnt: "failed (statistics (snd (processFile e input format processingOptions p)))
       = failed (statistics p)
         + (case validateFormat input format of
              Inl err \<Rightarrow> 0
            | Inr formatConfig \<Rightarrow>
                if mkdir e = None
                   \<and> processingStageError e input
                        (mergedOptions formatConfig format processingOptions) p
                then 1 else 0)"
  proof (cases "validateFormat input format")
    case (Inl a)
    then show ?thesis
      by (simp add: processFile_def handleError_def logEvent_def handleProcessingStart_def)
  next
    case (Inr cfg)
    show ?thesis
    proof (cases "mkdir e")
      case (Some m)
      with Inr show ?thesis
        by (simp add: processFile_def handleError_def logEvent_def handleProcessingStart_def)
    next
      case None
      let ?m = "mergedOptions cfg format processingOptions"
      obtain r p2 where pi: "processImage e input ?m ?p1 = (r, p2)" by fastforce
      have st: "processingStageError e input ?m ?p1 = processingStageError e input ?m p"
        by (simp add: processingStageError_def logEvent_def handleProcessingStart_def)
      have "failed (statistics p2) = failed (statistics ?p1)
              + (if processingStageError e input ?m ?p1 then 1 else 0)"
        using processImage_failed[of e input ?m ?p1] pi by simp
      then have f2: "failed (statistics p2) = failed (statistics p)
              + (if processingStageError e input ?m p then 1 else 0)"
        unfolding st by (simp add: logEvent_def handleProcessingStart_def)
      have "failed (statistics (snd (processFile e input format processingOptions p)))
              = failed (statistics p2)"
        using Inr None pi
        by (cases r) (simp_all add: processFile_def Let_def handleError_def logEvent_def
            handleProcessingComplete_def)
      with f2 Inr None show ?thesis by simp
    qed
  qed
  from pre cnt show ?thesis by blast
qed

theorem format_errors_leave_counters_and_cache_witness:
  "validateFormat ''in/a.png'' ''bmp'' = Inl (Error ''Unsupported output format: bmp'')
   \<and> fst (processFile sample_env ''in/a.png'' ''bmp'' [] new_processor)
        = Inl (Error ''Unsupported output format: bmp'')
   \<and> snd (processFile sample_env ''in/a.png'' ''bmp'' [] new_processor)
        = new_processor\<lparr> statistics := (statistics new_processor)
                                \<lparr> startTime := Some (now_start sample_env) \<rparr>,
                trace := trace new_processor
                   @ [ConsoleError (Error ''Unsupported output format: bmp'')] \<rparr>
   \<and> failed (statistics (snd (processFile sample_env ''in/a.png'' ''bmp'' [] new_processor))) = 0
   \<and> processingStageError unlink_fails_env ''in/a.png''
         (mergedOptions webp ''webp'' [(''remove'', JBool True)]) new_processor
   \<and> failed (statistics (snd (processFile unlink_fails_env ''in/a.png'' ''webp''
                                  [(''remove'', JBool True)] new_processor))) = 1"
proof -
  have h: "validateFormat ''in/a.png'' ''bmp'' = Inl (Error ''Unsupported output format: bmp'')"
    by code_simp
  have z: "failed (statistics new_processor) = 0"
    by (simp add: new_processor_def new_statistics_def)
  have v: "validateFormat ''in/a.png'' ''webp'' = Inr webp" by code_simp
  have r: "truthy (get (mergedOptions webp ''webp'' [(''remove'', JBool True)]) ''remove'')"
    by code_simp
  then have s: "processingStageError unlink_fails_env ''in/a.png''
         (mergedOptions webp ''webp'' [(''remove'', JBool True)]) new_processor"
    by (simp add: processingStageError_def unlink_fails_env_def sample_env_def new_processor_def)
  have m: "mkdir unlink_fails_env = None" by (simp add: unlink_fails_env_def sample_env_def)
  from format_errors_leave_counters_and_cache[of "''in/a.png''" "''bmp''"
      "Error ''Unsupported output format: bmp''" sample_env "[]" new_processor] h z
  have a: "fst (processFile sample_env ''in/a.png'' ''bmp'' [] new_processor)
        = Inl (Error ''Unsupported output format: bmp'')"
    "snd (processFile sample_env ''in/a.png'' ''bmp'' [] new_processor)
        = new_processor\<lparr> statistics := (statistics new_processor)
                                \<lparr> startTime := Some (now_start sample_env) \<rparr>,
                trace := trace new_processor
                   @ [ConsoleError (Error ''Unsupported output format: bmp'')] \<rparr>"
    "failed (statistics (snd (processFile sample_env ''in/a.png'' ''bmp'' [] new_processor))) = 0"
    by simp_all
  from format_errors_leave_counters_and_cache[of "''in/a.png''" "''webp''" _ unlink_fails_env
      "[(''remove'', JBool True)]" new_processor] v s m z
  have b: "failed (statistics (snd (processFile unlink_fails_env ''in/a.png'' ''webp''
                                  [(''remove'', JBool True)] new_processor))) = 1"
    by simp
  from h a s b show ?thesis by blast
qed

text \<open>
  C2, as stated: a second conversion with the same arguments performs no new I/O. In the
  sample run the second call returns the cached result, after one \<^verbatim>\<open>mkdir\<close>, one
  \<^verbatim>\<open>access\<close> and two \<^verbatim>\<open>stat\<close> requests.
\<close>

theorem second_call_performs_io:
  "fst first_call = Inr (generateResult ''in/a.png'' 204800 122880)
   \<and> fst second_call = Inr (generateResult ''in/a.png'' 204800 122880)
   \<and> trace (snd second_call)
       = trace (snd first_call) @ [Mkdir, Access ''in/a.png'', Stat ''in/a.png'', Stat ''in/a.png'']"
  unfolding first_call_def second_call_def by code_simp

lemma processFile_success_cached:
  assumes "processFile e input format opts p = (Inr r, p1)"
  shows "\<exists>cfg. validateFormat input format = Inr cfg
           \<and> cache p1 (cacheKey input (mergedOptions cfg format opts)) = Some r"
  using assms
  by (auto simp: processFile_def processImage_def tryProcessImage_def validateFile_def
      handleProcessingStart_def handleProcessingComplete_def handleError_def logEvent_def store_def
      Let_def split: option.splits sum.splits prod.splits if_splits)

text \<open>
  C2, amended. When a conversion has succeeded and, at a second call with the same
  arguments, the directory creation, the access check and the two stats of the input
  succeed again, the second call returns the same result, increments \<open>skipped\<close>, leaves the
  other counters and the cache as they are and does not call the encoder; before the cache
  is consulted it performs \<^verbatim>\<open>mkdir\<close>, \<^verbatim>\<open>access\<close> and two \<^verbatim>\<open>stat\<close> requests.
\<close>

theorem repeated_call_returns_cached_result:
  assumes "processFile e1 input format opts p = (Inr r, p1)"
    and "mkdir e2 = None" and "access e2 = None"
    and "stat_file e2 = Inr s" and "isFile s" and "stat_input e2 = Inr s'"
  shows "processFile e2 input format opts p1 =
           (Inr r,
            p1\<lparr> statistics := (statistics p1)
                   \<lparr> skipped := Suc (skipped (statistics p1)),
                     startTime := Some (now_start e2),
                     endTime := Some (now_complete e2) \<rparr>,
                trace := trace p1 @ [Mkdir, Access input, Stat input, Stat input] \<rparr>)"
proof -
  from processFile_success_cached[OF assms(1)] obtain cfg where
    v: "validateFormat input format = Inr cfg"
    and c: "cache p1 (cacheKey input (mergedOptions cfg format opts)) = Some r" by blast
  show ?thesis
    using v c assms(2-)
    by (simp add: processFile_def processImage_def tryProcessImage_def validateFile_def
      handleProcessingStart_def handleProcessingComplete_def handleError_def logEvent_def Let_def)
qed


theorem repeated_call_returns_cached_result_witness:
  "processFile sample_env ''in/a.png'' ''webp'' [(''quality'', JNum 80)] new_processor = first_call
   \<and> fst first_call = Inr (generateResult ''in/a.png'' 204800 122880)
   \<and> processFile sample_env ''in/a.png'' ''webp'' [(''quality'', JNum 80)] (snd first_call) =
           (Inr (generateResult ''in/a.png'' 204800 122880),
            (snd first_call)\<lparr> statistics := (statistics (snd first_call))
                   \<lparr> skipped := Suc (skipped (statistics (snd first_call))),
                     startTime := Some (now_start sample_env),
                     endTime := Some (now_complete sample_env) \<rparr>,
                trace := trace (snd first_call)
                   @ [Mkdir, Access ''in/a.png'', Stat ''in/a.png'', Stat ''in/a.png''] \<rparr>)"
proof -
  have r: "fst first_call = Inr (generateResult ''in/a.png'' 204800 122880)"
    unfolding first_call_def by code_simp
  then have f: "processFile sample_env ''in/a.png'' ''webp'' [(''quality'', JNum 80)] new_processor
      = (Inr (generateResult ''in/a.png'' 204800 122880), snd first_call)"
    by (simp add: first_call_def prod_eq_iff)
  have e: "mkdir sample_env = None" "access sample_env = None"
    "stat_file sample_env = Inr \<lparr> isFile = True, size' = 204800 \<rparr>"
    "isFile \<lparr> isFile = True, size' = 204800 \<rparr>"
    "stat_input sample_env = Inr \<lparr> isFile = True, size' = 204800 \<rparr>"
    by (simp_all add: sample_env_def)
  from repeated_call_returns_cached_result[OF f e] r show ?thesis
    by (simp add: first_call_def)
qed

text \<open>
  C7, as stated: a failed deletion of the original leaves the conversion successful,
  cached and counted. In the sample run the call throws, nothing is cached, \<open>processed\<close>
  stays 0 and \<open>failed\<close> becomes 1.
\<close>

theorem failed_deletion_fails_the_call:
  "fst delete_fails = Inl (Enhanced ''in/a.png'' (Error ''EPERM: operation not permitted''))
   \<and> processed (statistics (snd delete_fails)) = 0
   \<and> failed (statistics (snd delete_fails)) = 1
   \<and> cache (snd delete_fails)
        (cacheKey ''in/a.png'' (mergedOptions webp ''webp'' [(''remove'', JBool True)])) = None"
  unfolding delete_fails_def unlink_fails_env_def by code_simp

lemma deletion_order:
  "\<exists>evs. trace (snd (processFile e input format opts p)) = trace p @ evs
      \<and> (\<forall>path. Unlink path \<in> set evs \<longrightarrow>
            path = input \<and> toFile e = None \<and> \<not> isl (stat_output e)
            \<and> (\<exists>pre a post. evs = pre @ [ToFile input a, StatOutput, Unlink input] @ post))"
proof -
  have t: "\<And>b post. \<exists>pre a post'.
      Mkdir # Access input # Stat input # Stat input # ToFile input b # StatOutput # Unlink input # post
      = pre @ ToFile input a # StatOutput # Unlink input # post'"
  proof -
    fix b post
    have "Mkdir # Access input # Stat input # Stat input # ToFile input b # StatOutput # Unlink input # post
      = [Mkdir, Access input, Stat input, Stat input] @ ToFile input b # StatOutput # Unlink input # post"
      by simp
    then show "\<exists>pre a post'.
      Mkdir # Access input # Stat input # Stat input # ToFile input b # StatOutput # Unlink input # post
      = pre @ ToFile input a # StatOutput # Unlink input # post'" by blast
  qed
  show ?thesis
    by (auto simp: processFile_def processImage_def tryProcessImage_def validateFile_def
      handleProcessingStart_def handleProcessingComplete_def handleError_def logEvent_def store_def
      Let_def t split: option.splits sum.splits prod.splits if_splits)
qed

text \<open>
  C7, amended. With the delete-original option set, the deletion is requested only after
  the encoder has written the output and the output has been measured. When the deletion
  fails, the call fails: the enhanced error is thrown, \<open>failed\<close> is incremented, the result
  is not cached and \<open>processed\<close> is not incremented.
\<close>

theorem failed_deletion_is_a_failed_conversion:
  assumes "validateFormat input format = Inr cfg"
    and "truthy (get (mergedOptions cfg format opts) ''remove'')"
    and "mkdir e = None" and "access e = None"
    and "stat_file e = Inr s" and "isFile s" and "stat_input e = Inr si"
    and "cache p (cacheKey input (mergedOptions cfg format opts)) = None"
    and "toFile e = None" and "stat_output e = Inr so"
    and "unlink e = Some m"
  shows "processFile e input format opts p =
           (Inl (Enhanced input (Error m)),
            p\<lparr> statistics := (statistics p)
                   \<lparr> failed := Suc (failed (statistics p)),
                     startTime := Some (now_start e) \<rparr>,
                trace := trace p
                   @ [Mkdir, Access input, Stat input, Stat input,
                      ToFile input (filter (\<lambda>q. fst q \<noteq> ''format'')
                                     (ownProps (mergedOptions cfg format opts))),
                      StatOutput, Unlink input,
                      ConsoleError (Enhanced input (Error m))] \<rparr>)
         \<and> (\<exists>evs. trace (snd (processFile e' input format opts p')) = trace p' @ evs
            \<and> (\<forall>path. Unlink path \<in> set evs \<longrightarrow>
                  path = input \<and> toFile e' = None \<and> \<not> isl (stat_output e')
                  \<and> (\<exists>pre a post. evs = pre @ [ToFile input a, StatOutput, Unlink input] @ post)))"
  using assms deletion_order[of e' input format opts p']
  by (simp add: processFile_def processImage_def tryProcessImage_def validateFile_def
      handleProcessingStart_def handleProcessingComplete_def handleError_def logEvent_def store_def
      enhanceError_def Let_def)

theorem failed_deletion_is_a_failed_conversion_witness:
  "validateFormat ''in/a.png'' ''webp'' = Inr webp
   \<and> truthy (get (mergedOptions webp ''webp'' [(''remove'', JBool True)]) ''remove'')
   \<and> cache new_processor
        (cacheKey ''in/a.png'' (mergedOptions webp ''webp'' [(''remove'', JBool True)])) = None
   \<and> unlink unlink_fails_env = Some ''EPERM: operation not permitted''
   \<and> fst (processFile unlink_fails_env ''in/a.png'' ''webp'' [(''remove'', JBool True)]
             new_processor)
       = Inl (Enhanced ''in/a.png'' (Error ''EPERM: operation not permitted''))"
proof -
  have h: "validateFormat ''in/a.png'' ''webp'' = Inr webp"
    "truthy (get (mergedOptions webp ''webp'' [(''remove'', JBool True)]) ''remove'')"
    by code_simp+
  have e: "mkdir unlink_fails_env = None" "access unlink_fails_env = None"
    "stat_file unlink_fails_env = Inr \<lparr> isFile = True, size' = 204800 \<rparr>"
    "isFile \<lparr> isFile = True, size' = 204800 \<rparr>"
    "stat_input unlink_fails_env = Inr \<lparr> isFile = True, size' = 204800 \<rparr>"
    by (simp_all add: unlink_fails_env_def sample_env_def)
  have c: "cache new_processor
        (cacheKey ''in/a.png'' (mergedOptions webp ''webp'' [(''remove'', JBool True)])) = None"
    by (simp add: new_processor_def)
  have o: "toFile unlink_fails_env = None"
    "stat_output unlink_fails_env = Inr \<lparr> isFile = True, size' = 122880 \<rparr>"
    "unlink unlink_fails_env = Some ''EPERM: operation not permitted''"
    by (simp_all add: unlink_fails_env_def sample_env_def)
  from failed_deletion_is_a_failed_conversion[OF h e c o, where e' = sample_env and p' = new_processor]
    h c o(3)
  show ?thesis by simp
qed

section \<open>Size statistics of a result\<close>



text \<open>
  The percentage of a file that shrinks from 2000 to 1997 bytes is 0.15 in exact
  arithmetic. The double nearest to \<open>3 / 2000\<close>, times 100, is rounded to a double just
  below 0.15, which is printed as \<^verbatim>\<open>0.1\<close>.
\<close>

lemma percentage_below_a_tie:
  "percentage 3 2000 = Finite (5404319552844595 / 36028797018963968)
   \<and> map_option savingPercent (stats (generateResult ''in/a.png'' 2000 1997)) = Some ''-0.1''"
  by code_simp




section \<open>Folder batches\<close>

lemma progressLog_append [simp]: "progressLog (xs @ ys) = progressLog xs @ progressLog ys"
  by (induction xs rule: progressLog.induct) simp_all

lemma success_generateResult [simp]: "success (generateResult f a b)"
  by (simp add: generateResult_def Let_def)


lemma processFile_cached_successes:
  assumes "cached_successes p"
  shows "cached_successes (snd (processFile e input format opts p))"
  using assms unfolding cached_successes_def
  by (auto simp: call_defs split: option.splits sum.splits prod.splits if_splits)












lemma processFolder_descriptor:
  assumes "lookupFormat (toLowerCase format) = Descriptor cfg"
    and "batch_mkdir e = None" and "readdir e = Inr files"
    and "forEntries (join folder) (file_env e) format opts cb (length (imageFiles cfg files))
           (enumerate 0 (imageFiles cfg files))
           ([], logEvent (Readdir folder) (logEvent Mkdir (handleProcessingStart (batch_start e) p)))
         = (rs, p3)"
  shows "processFolder join e folder format opts cb p
           = (Inr rs, handleProcessingComplete (batch_complete e) p3)"
  using assms by (simp add: processFolder_def Let_def)

text \<open>The cache of a processor only ever holds successes.\<close>

lemma cached_successes_new: "cached_successes new_processor"
  by (simp add: cached_successes_def new_processor_def)

lemma cached_successes_clearCache: "cached_successes (clearCache p)"
  by (simp add: cached_successes_def clearCache_def)

lemma loopBody_cached_successes:
  assumes "cached_successes (snd acc)"
  shows "cached_successes (snd (loopBody inputOf envs format opts cb len entry acc))"
proof -
  obtain rs p where acc: "acc = (rs, p)" by fastforce
  obtain index fname where en: "entry = (index, fname)" by fastforce
  obtain res p1 where pf: "processFile (envs index) (inputOf fname) format opts p = (res, p1)"
    by fastforce
  from processFile_cached_successes[of p "envs index" "inputOf fname" format opts] assms acc pf
  have "cached_successes p1" by simp
  with acc en pf show ?thesis
    by (cases res; cases cb)
       (auto simp: loopBody_def Let_def logEvent_def cached_successes_def split: option.splits)
qed

lemma forEntries_cached_successes:
  "cached_successes (snd acc) \<Longrightarrow>
     cached_successes (snd (forEntries inputOf envs format opts cb len entries acc))"
  by (induction entries arbitrary: acc) (simp_all add: loopBody_cached_successes)

lemma processFolder_cached_successes:
  assumes "cached_successes p"
  shows "cached_successes (snd (processFolder join e folder format opts cb p))"
proof -
  have a: "\<And>t q. cached_successes q \<Longrightarrow> cached_successes (handleProcessingStart t q)"
    "\<And>t q. cached_successes q \<Longrightarrow> cached_successes (handleProcessingComplete t q)"
    "\<And>ev q. cached_successes q \<Longrightarrow> cached_successes (logEvent ev q)"
    "\<And>err q. cached_successes q \<Longrightarrow> cached_successes (handleError err q)"
    by (simp_all add: cached_successes_def handleProcessingStart_def
        handleProcessingComplete_def logEvent_def handleError_def)
  let ?p2 = "logEvent (Readdir folder) (logEvent Mkdir (handleProcessingStart (batch_start e) p))"
  have w2: "cached_successes ?p2" using assms by (simp add: a)
  show ?thesis
  proof (cases "lookupFormat (toLowerCase format)")
    case Undefined
    with assms show ?thesis by (simp add: processFolder_def)
  next
    case Inherited
    with assms show ?thesis
      by (cases "batch_mkdir e"; cases "readdir e") (simp_all add: processFolder_def Let_def a)
  next
    case (Descriptor cfg)
    show ?thesis
    proof (cases "batch_mkdir e")
      case (Some m)
      with Descriptor assms show ?thesis by (simp add: processFolder_def Let_def a)
    next
      case None
      show ?thesis
      proof (cases "readdir e")
        case (Inl m)
        with Descriptor None assms show ?thesis by (simp add: processFolder_def Let_def a)
      next
        case (Inr files)
        obtain rs p3 where
          fe: "forEntries (join folder) (file_env e) format opts cb (length (imageFiles cfg files))
                 (enumerate 0 (imageFiles cfg files)) ([], ?p2) = (rs, p3)" by fastforce
        from forEntries_cached_successes[of "([], ?p2)" "join folder" "file_env e" format opts cb
            "length (imageFiles cfg files)" "enumerate 0 (imageFiles cfg files)"] w2 fe
        have "cached_successes p3" by simp
        with processFolder_descriptor[where join = join and folder = folder,
            OF Descriptor None Inr fe]
        show ?thesis by (simp add: a)
      qed
    qed
  qed
qed















section \<open>Timestamps\<close>

lemma processFile_startTime:
  "startTime (statistics (snd (processFile e input format opts p))) = Some (now_start e)"
  by (auto simp: call_defs split: option.splits sum.splits prod.splits if_splits)

lemma loopBody_startTime:
  "startTime (statistics (snd (loopBody inputOf envs format opts cb len (index, fname) acc)))
     = Some (now_start (envs index))"
proof -
  obtain rs p where acc: "acc = (rs, p)" by fastforce
  obtain res p1 where pf: "processFile (envs index) (inputOf fname) format opts p = (res, p1)"
    by fastforce
  from processFile_startTime[of "envs index" "inputOf fname" format opts p] pf
  have "startTime (statistics p1) = Some (now_start (envs index))" by simp
  with acc pf show ?thesis
    by (cases res; cases cb) (auto simp: loopBody_def Let_def logEvent_def split: option.splits)
qed

lemma forEntries_startTime:
  "xs \<noteq> [] \<Longrightarrow>
     startTime (statistics (snd (forEntries inputOf envs format opts cb len (enumerate i0 xs) acc)))
       = Some (now_start (envs (i0 + length xs - 1)))"
proof (induction xs arbitrary: i0 acc)
  case Nil
  then show ?case by simp
next
  case (Cons x xs)
  show ?case
  proof (cases "xs = []")
    case True
    then show ?thesis by (simp add: loopBody_startTime)
  next
    case False
    from Cons.IH[OF False, of "Suc i0"] show ?thesis by simp
  qed
qed

text \<open>
  Every file of a batch sets the start time again: when a batch with eligible files
  returns, the start time is the one of its last file.
\<close>

lemma batch_startTime_is_last_file_start:
  assumes "lookupFormat (toLowerCase format) = Descriptor cfg"
    and "batch_mkdir e = None" and "readdir e = Inr files"
    and "imageFiles cfg files \<noteq> []"
  shows "startTime (statistics (snd (processFolder join e folder format opts cb p)))
           = Some (now_start (file_env e (length (imageFiles cfg files) - 1)))"
proof -
  let ?p2 = "logEvent (Readdir folder) (logEvent Mkdir (handleProcessingStart (batch_start e) p))"
  obtain rs p3 where
    fe: "forEntries (join folder) (file_env e) format opts cb (length (imageFiles cfg files))
           (enumerate 0 (imageFiles cfg files)) ([], ?p2) = (rs, p3)" by fastforce
  from forEntries_startTime[OF assms(4), of "join folder" "file_env e" format opts cb
      "length (imageFiles cfg files)" 0 "([], ?p2)"] fe
  have "startTime (statistics p3)
      = Some (now_start (file_env e (length (imageFiles cfg files) - 1)))" by simp
  with processFolder_descriptor[where join = join and folder = folder, OF assms(1-3) fe]
  show ?thesis
    by (simp add: handleProcessingComplete_def)
qed

text \<open>Resetting the statistics zeroes the counters and clears both timestamps.\<close>

lemma getStats_resetStats:
  "getStats (resetStats p)
     = \<lparr> processed = 0, failed = 0, skipped = 0, totalSaved = 0, startTime = None,
         endTime = None, processingTime = None, averageSaving = None \<rparr>"
  by (simp add: getStats_def resetStats_def new_statistics_def statistics.extend_def
      snapshot.fields_def)

text \<open>
  C8. The timestamps are set once when a batch starts and once when it completes, and by
  nothing in between. In the sample run the batch starts at 1000 and completes at 4000,
  and the start time left in the statistics is 3000, the start of the last file, so that
  the processing time reported is 1 second.
\<close>

theorem batch_time_starts_at_the_last_file:
  "batch_start timed_batch = 1000
   \<and> startTime (statistics (snd timed_run)) = Some 3000
   \<and> endTime (statistics (snd timed_run)) = Some 4000
   \<and> processingTime (getStats (snd timed_run)) = Some 1"
  unfolding timed_run_def by code_simp

section \<open>Cache keys\<close>

subsection \<open>The JSON text of an object determines its members\<close>

lemma of_char_hex_digit:
  "0 \<le> d \<Longrightarrow> d < 16 \<Longrightarrow> (of_char (hex_digit d) :: int) = (if d < 10 then 48 + d else 87 + d)"
  by (simp add: hex_digit_def)

lemma hex_digit_inject:
  assumes "0 \<le> x" "x < 16" "0 \<le> y" "y < 16" "hex_digit x = hex_digit y"
  shows "x = y"
proof -
  from assms(5) have "(of_char (hex_digit x) :: int) = of_char (hex_digit y)" by simp
  with assms(1-4) show ?thesis by (simp add: of_char_hex_digit split: if_splits)
qed

lemma of_char_nonneg: "0 \<le> (of_char c :: int)"
  by (metis of_nat_0_le_iff of_nat_of_char)

lemma control_char_inject:
  fixes c d :: char
  assumes "hex_digit (of_char c div 16) = hex_digit (of_char d div 16)"
    and "hex_digit (of_char c mod 16) = hex_digit (of_char d mod 16)"
    and "(of_char c :: int) < 32" and "(of_char d :: int) < 32"
  shows "c = d"
proof -
  let ?a = "of_char c :: int" and ?b = "of_char d :: int"
  have nn: "0 \<le> ?a" "0 \<le> ?b" by (rule of_char_nonneg)+
  with assms(3,4) have "?a div 16 = ?b div 16"
    using hex_digit_inject[of "?a div 16" "?b div 16"] assms(1) by simp
  moreover have "?a mod 16 = ?b mod 16"
    using hex_digit_inject[of "?a mod 16" "?b mod 16"] assms(2) by simp
  ultimately have "?a = ?b" by (metis div_mult_mod_eq)
  then show ?thesis by (simp only: of_char_eq_iff)
qed

lemma json_escape_nonempty: "json_escape c \<noteq> []"
  by (simp add: json_escape_def)

lemma json_escape_hd: "hd (json_escape c) \<noteq> CHR 0x22"
  by (simp add: json_escape_def)

lemma json_escape_prefix:
  assumes "json_escape c @ r = json_escape d @ s"
  shows "c = d \<and> r = s"
proof -
  have "c = d"
    using assms control_char_inject[of c d]
    by (auto simp: json_escape_def split: if_splits)
  with assms show ?thesis by simp
qed


lemma escapes_prefix:
  assumes "concat (map json_escape a) @ CHR 0x22 # r = concat (map json_escape b) @ CHR 0x22 # s"
  shows "a = b \<and> r = s"
  using assms
proof (induction a arbitrary: b)
  case Nil
  show ?case
  proof (cases b)
    case Nil
    with Nil.prems show ?thesis by simp
  next
    case (Cons d b')
    with Nil.prems
    have "json_escape d @ concat (map json_escape b') @ CHR 0x22 # s = CHR 0x22 # r" by simp
    then have "hd (json_escape d @ concat (map json_escape b') @ CHR 0x22 # s) = CHR 0x22"
      by simp
    with json_escape_nonempty[of d] json_escape_hd[of d] show ?thesis by simp
  qed
next
  case (Cons c a')
  show ?case
  proof (cases b)
    case Nil
    with Cons.prems
    have "json_escape c @ concat (map json_escape a') @ CHR 0x22 # r = CHR 0x22 # s" by simp
    then have "hd (json_escape c @ concat (map json_escape a') @ CHR 0x22 # r) = CHR 0x22"
      by simp
    with json_escape_nonempty[of c] json_escape_hd[of c] show ?thesis by simp
  next
    case (Cons d b')
    with Cons.prems have "json_escape c @ (concat (map json_escape a') @ CHR 0x22 # r)
        = json_escape d @ (concat (map json_escape b') @ CHR 0x22 # s)" by simp
    from json_escape_prefix[OF this] Cons.IH[of b'] Cons show ?thesis by simp
  qed
qed

lemma json_quote_prefix:
  assumes "json_quote a @ r = json_quote b @ s"
  shows "a = b \<and> r = s"
  using assms escapes_prefix[of a r b s] by (simp add: json_quote_def)

lemma json_quote_inject: "json_quote a = json_quote b \<Longrightarrow> a = b"
  using json_quote_prefix[of a "[]" b "[]"] by simp


lemma is_digit_plain:
  assumes "is_digit c"
  shows "c \<noteq> CHR '','' \<and> c \<noteq> CHR ''}'' \<and> c \<noteq> CHR 0x22"
proof -
  have "\<not> is_digit (CHR '','')" "\<not> is_digit (CHR ''}'')" "\<not> is_digit (CHR 0x22)"
    by (simp_all add: is_digit_def)
  with assms show ?thesis by blast
qed

lemma plain_digits:
  assumes "s \<noteq> []" "list_all is_digit s"
  shows "plain s"
  unfolding plain_def using assms is_digit_plain by (simp add: list_all_iff)

lemma plain_show_int: "plain (show_int i)"
proof (cases "i < 0")
  case True
  then have "0 \<le> - i" by simp
  from show_digits_props[OF this] have "plain (show_digits (- i))" by (simp add: plain_digits)
  with True show ?thesis by (simp add: show_int_def plain_def)
next
  case False
  then have "0 \<le> i" by simp
  from show_digits_props[OF this] have "plain (show_digits i)" by (simp add: plain_digits)
  with False show ?thesis by (simp add: show_int_def)
qed

lemma json_value_cases:
  assumes "json_value v = Some t"
  shows "plain t \<or> (\<exists>s. v = JStr s \<and> t = json_quote s)"
proof (cases v)
  case JUndefined
  with assms show ?thesis by simp
next
  case JNull
  with assms have "t = ''null''" by simp
  then show ?thesis by (simp add: plain_def)
next
  case (JBool b)
  with assms have "t = ''true'' \<or> t = ''false''" by (cases b) simp_all
  then show ?thesis by (auto simp: plain_def)
next
  case (JNum n)
  with assms show ?thesis using plain_show_int[of n] by simp
next
  case (JStr s)
  with assms show ?thesis by simp
qed

lemma takeWhile_plain:
  assumes "plain t" "r \<noteq> []" "hd r = CHR '','' \<or> hd r = CHR ''}''"
  shows "takeWhile (\<lambda>c. c \<noteq> CHR '','' \<and> c \<noteq> CHR ''}'') (t @ r) = t"
proof -
  let ?P = "\<lambda>c. c \<noteq> CHR '','' \<and> c \<noteq> CHR ''}''"
  from assms(1) have "\<forall>c \<in> set t. ?P c" by (simp add: plain_def)
  then have "takeWhile ?P (t @ r) = t @ takeWhile ?P r" by simp
  moreover from assms(2,3) have "takeWhile ?P r = []" by (cases r) auto
  ultimately show ?thesis by simp
qed

lemma plain_prefix:
  assumes "plain t" "plain u" "t @ r = u @ s"
    and "r \<noteq> []" "hd r = CHR '','' \<or> hd r = CHR ''}''"
    and "s \<noteq> []" "hd s = CHR '','' \<or> hd s = CHR ''}''"
  shows "t = u \<and> r = s"
proof -
  have "t = u"
    using takeWhile_plain[OF assms(1,4,5)] takeWhile_plain[OF assms(2,6,7)] assms(3) by simp
  with assms(3) show ?thesis by simp
qed

lemma token_prefix:
  assumes "json_value v = Some t" "json_value w = Some u" "t @ r = u @ s"
    and "r \<noteq> []" "hd r = CHR '','' \<or> hd r = CHR ''}''"
    and "s \<noteq> []" "hd s = CHR '','' \<or> hd s = CHR ''}''"
  shows "t = u \<and> r = s"
proof -
  from json_value_cases[OF assms(1)] json_value_cases[OF assms(2)]
  consider (pp) "plain t" "plain u"
    | (qq) a b where "t = json_quote a" "u = json_quote b"
    | (pq) b where "plain t" "u = json_quote b"
    | (qp) a where "t = json_quote a" "plain u" by blast
  then show ?thesis
  proof cases
    case pp
    then show ?thesis using plain_prefix assms(3-) by blast
  next
    case qq
    with assms(3) json_quote_prefix[of a r b s] show ?thesis by simp
  next
    case pq
    then have "hd (t @ r) \<noteq> CHR 0x22" by (cases t) (auto simp: plain_def)
    moreover have "hd (u @ s) = CHR 0x22" using pq by (simp add: json_quote_def)
    ultimately show ?thesis using assms(3) by simp
  next
    case qp
    then have "hd (u @ s) \<noteq> CHR 0x22" by (cases u) (auto simp: plain_def)
    moreover have "hd (t @ r) = CHR 0x22" using qp by (simp add: json_quote_def)
    ultimately show ?thesis using assms(3) by simp
  qed
qed

lemma member_prefix:
  assumes "json_value v = Some t" "json_value w = Some u"
    and "(json_quote k @ CHR '':'' # t) @ r = (json_quote l @ CHR '':'' # u) @ s"
    and "r \<noteq> []" "hd r = CHR '','' \<or> hd r = CHR ''}''"
    and "s \<noteq> []" "hd s = CHR '','' \<or> hd s = CHR ''}''"
  shows "k = l \<and> t = u \<and> r = s"
proof -
  from assms(3) have "json_quote k @ (CHR '':'' # t @ r) = json_quote l @ (CHR '':'' # u @ s)"
    by simp
  from json_quote_prefix[OF this] have kl: "k = l" and "t @ r = u @ s" by simp_all
  from token_prefix[OF assms(1,2) this(2) assms(4-7)] kl show ?thesis by simp
qed

lemma join_with_Cons:
  "join_with sep (a # A) @ e = a @ (if A = [] then e else sep @ join_with sep A @ e)"
  by (cases A) simp_all

lemma join_members_inject:
  assumes "\<forall>m \<in> set A. \<exists>k v t. json_value v = Some t \<and> m = json_quote k @ CHR '':'' # t"
    and "\<forall>m \<in> set B. \<exists>k v t. json_value v = Some t \<and> m = json_quote k @ CHR '':'' # t"
    and "join_with '','' A @ ''}'' = join_with '','' B @ ''}''"
  shows "A = B"
  using assms
proof (induction A arbitrary: B)
  case Nil
  show ?case
  proof (cases B)
    case Nil
    then show ?thesis by simp
  next
    case (Cons b B')
    with Nil.prems(2) obtain k v t where "b = json_quote k @ CHR '':'' # t" by auto
    then have "hd (join_with '','' B @ ''}'') = CHR 0x22"
      using Cons by (simp add: join_with_Cons json_quote_def del: join_with.simps)
    with Nil.prems(3) show ?thesis by simp
  qed
next
  case (Cons a A')
  from Cons.prems(1) obtain k v t where a: "json_value v = Some t" "a = json_quote k @ CHR '':'' # t"
    by auto
  show ?case
  proof (cases B)
    case Nil
    have "hd (join_with '','' (a # A') @ ''}'') = CHR 0x22"
      using a by (simp add: join_with_Cons json_quote_def del: join_with.simps)
    with Cons.prems(3) Nil show ?thesis by simp
  next
    case (Cons b B')
    with Cons.prems(2) obtain l w u where
      b: "json_value w = Some u" "b = json_quote l @ CHR '':'' # u" by auto
    let ?r = "if A' = [] then ''}'' else '','' @ join_with '','' A' @ ''}''"
    let ?s = "if B' = [] then ''}'' else '','' @ join_with '','' B' @ ''}''"
    from Cons.prems(3) Cons a b
    have eq: "(json_quote k @ CHR '':'' # t) @ ?r = (json_quote l @ CHR '':'' # u) @ ?s"
      by (simp only: join_with_Cons)
    have r: "?r \<noteq> []" "hd ?r = CHR '','' \<or> hd ?r = CHR ''}''" by simp_all
    have s: "?s \<noteq> []" "hd ?s = CHR '','' \<or> hd ?s = CHR ''}''" by simp_all
    from member_prefix[OF a(1) b(1) eq r s] have ab: "a = b" and rs: "?r = ?s"
      using a b by simp_all
    have "A' = B'"
    proof (cases "A' = []")
      case True
      with rs show ?thesis by (cases "B' = []") simp_all
    next
      case False
      with rs have bn: "B' \<noteq> []" by (cases "B' = []") simp_all
      with False rs have "join_with '','' A' @ ''}'' = join_with '','' B' @ ''}''" by simp
      with Cons.IH[of B'] Cons.prems(1,2) Cons show ?thesis by simp
    qed
    with ab Cons show ?thesis by simp
  qed
qed

lemma json_members_elem:
  "m \<in> set (json_members obj)
     \<longleftrightarrow> (\<exists>k v t. (k, v) \<in> set obj \<and> json_value v = Some t \<and> m = json_quote k @ CHR '':'' # t)"
proof (induction obj rule: json_members.induct)
  case 1
  then show ?case by simp
next
  case (2 k v ps)
  show ?case
  proof (cases "json_value v")
    case None
    with 2 show ?thesis by auto
  next
    case (Some u)
    have "m \<in> set (json_members ((k, v) # ps))
        \<longleftrightarrow> m = json_quote k @ CHR '':'' # u \<or> m \<in> set (json_members ps)"
      using Some by auto
    also have "\<dots> \<longleftrightarrow> m = json_quote k @ CHR '':'' # u
        \<or> (\<exists>k' v' t. (k', v') \<in> set ps \<and> json_value v' = Some t
               \<and> m = json_quote k' @ CHR '':'' # t)"
      using 2(2)[OF Some] by simp
    also have "\<dots> \<longleftrightarrow> (\<exists>k' v' t. (k', v') \<in> set ((k, v) # ps) \<and> json_value v' = Some t
               \<and> m = json_quote k' @ CHR '':'' # t)"
      using Some by auto
    finally show ?thesis .
  qed
qed

lemma stringify_members:
  assumes "stringify a = stringify b"
  shows "json_members (ownProps a) = json_members (ownProps b)"
proof -
  from assms have "join_with '','' (json_members (ownProps a)) @ ''}''
      = join_with '','' (json_members (ownProps b)) @ ''}''" by (simp add: stringify_def)
  moreover have "\<And>obj. \<forall>m \<in> set (json_members obj).
      \<exists>k v t. json_value v = Some t \<and> m = json_quote k @ CHR '':'' # t"
    using json_members_elem by blast
  ultimately show ?thesis using join_members_inject by blast
qed

subsection \<open>Objects\<close>

lemma set_ownProps: "set (ownProps obj) = set obj"
  by (auto simp: ownProps_def)

lemma map_of_put: "map_of (put k v obj) = (map_of obj)(k \<mapsto> v)"
  by (induction obj) (auto simp: fun_eq_iff)

lemma keys_put: "fst ` set (put k v obj) = insert k (fst ` set obj)"
  by (induction obj) auto

lemma distinct_put: "distinct (map fst obj) \<Longrightarrow> distinct (map fst (put k v obj))"
proof (induction obj)
  case Nil
  then show ?case by simp
next
  case (Cons p ps)
  then show ?case using keys_put[of k v ps] by (auto simp: image_iff)
qed

lemma distinct_fold_put:
  "distinct (map fst t) \<Longrightarrow> distinct (map fst (fold (\<lambda>p. put (fst p) (snd p)) s t))"
  by (induction s arbitrary: t) (simp_all add: distinct_put)

lemma map_of_fold_put_other:
  "k \<notin> fst ` set s \<Longrightarrow> map_of (fold (\<lambda>p. put (fst p) (snd p)) s t) k = map_of t k"
  by (induction s arbitrary: t) (auto simp: map_of_put)

lemma distinct_mergedOptions: "distinct (map fst (mergedOptions cfg format opts))"
  by (simp add: mergedOptions_def spread_def distinct_fold_put distinct_put)

lemma mergedOptions_format:
  assumes "''format'' \<notin> fst ` set opts"
  shows "map_of (mergedOptions cfg format opts) ''format'' = Some (JStr format)"
  using assms
  by (simp add: mergedOptions_def spread_def map_of_fold_put_other set_ownProps map_of_put)

lemma put_distinct:
  assumes "distinct (map fst t)"
  shows "put k v t = (if k \<in> fst ` set t
                      then map (\<lambda>q. if fst q = k then (k, v) else q) t
                      else t @ [(k, v)])"
  using assms
proof (induction t)
  case Nil
  then show ?case by simp
next
  case (Cons p ps)
  show ?case
  proof (cases "fst p = k")
    case True
    with Cons.prems have "k \<notin> fst ` set ps" by auto
    then have "map (\<lambda>q. if fst q = k then (k, v) else q) ps = ps"
      by (induction ps) auto
    with True show ?thesis by simp
  next
    case False
    with Cons show ?thesis by auto
  qed
qed

text \<open>The value that an object holds after the properties of \<open>s\<close> have been copied over it.\<close>

lemma fold_put_distinct:
  assumes "distinct (map fst s)" and "distinct (map fst t)"
  shows "fold (\<lambda>p. put (fst p) (snd p)) s t
           = map (\<lambda>q. (fst q, case map_of s (fst q) of None \<Rightarrow> snd q | Some v \<Rightarrow> v)) t
             @ filter (\<lambda>q. fst q \<notin> fst ` set t) s"
  using assms
proof (induction s arbitrary: t)
  case Nil
  then show ?case by (simp add: map_idI)
next
  case (Cons p s)
  obtain k v where p: "p = (k, v)" by fastforce
  from Cons.prems(1) p have ks: "k \<notin> fst ` set s" and ds: "distinct (map fst s)" by auto
  from ks have mk: "map_of s k = None" by (simp add: map_of_eq_None_iff)
  let ?t' = "put k v t"
  have dt': "distinct (map fst ?t')" using Cons.prems(2) by (rule distinct_put)
  have kt': "fst ` set ?t' = insert k (fst ` set t)" by (rule keys_put)
  from Cons.IH[OF ds dt']
  have ih: "fold (\<lambda>p. put (fst p) (snd p)) s ?t'
           = map (\<lambda>q. (fst q, case map_of s (fst q) of None \<Rightarrow> snd q | Some v \<Rightarrow> v)) ?t'
             @ filter (\<lambda>q. fst q \<notin> fst ` set ?t') s" .
  have fl: "filter (\<lambda>q. fst q \<notin> fst ` set ?t') s = filter (\<lambda>q. fst q \<notin> fst ` set t) s"
    unfolding kt' using ks by (intro filter_cong) auto
  show ?case
  proof (cases "k \<in> fst ` set t")
    case True
    then have t': "?t' = map (\<lambda>q. if fst q = k then (k, v) else q) t"
      using put_distinct[OF Cons.prems(2)] by simp
    have "map (\<lambda>q. (fst q, case map_of s (fst q) of None \<Rightarrow> snd q | Some v \<Rightarrow> v)) ?t'
        = map (\<lambda>q. (fst q, case map_of (p # s) (fst q) of None \<Rightarrow> snd q | Some v \<Rightarrow> v)) t"
      unfolding t' using mk p by (auto simp: o_def)
    with ih fl True p show ?thesis by simp
  next
    case False
    then have t': "?t' = t @ [(k, v)]" using put_distinct[OF Cons.prems(2)] by simp
    have "map (\<lambda>q. (fst q, case map_of s (fst q) of None \<Rightarrow> snd q | Some v \<Rightarrow> v)) t
        = map (\<lambda>q. (fst q, case map_of (p # s) (fst q) of None \<Rightarrow> snd q | Some v \<Rightarrow> v)) t"
      using False p by (intro map_cong) auto
    with ih fl False p mk show ?thesis by (simp add: t')
  qed
qed

lemma distinct_ownProps:
  assumes "distinct (map fst obj)"
  shows "distinct (map fst (ownProps obj))"
proof -
  from assms have d: "distinct obj" and i: "inj_on fst (set obj)" by (simp_all add: distinct_map)
  let ?A = "filter (\<lambda>p. array_index (fst p) \<noteq> None) obj"
  let ?B = "filter (\<lambda>p. array_index (fst p) = None) obj"
  let ?g = "\<lambda>p. the (array_index (fst p))"
  have "distinct (map fst (sort_key ?g ?A))"
    using d i by (simp add: distinct_map inj_on_def)
  moreover have "distinct (map fst ?B)" using assms by (simp add: distinct_map_filter)
  moreover have "fst ` set (sort_key ?g ?A) \<inter> fst ` set ?B = {}" by auto
  ultimately show ?thesis by (simp add: ownProps_def)
qed

lemma map_of_ownProps:
  assumes "distinct (map fst obj)"
  shows "map_of (ownProps obj) = map_of obj"
  using distinct_ownProps[OF assms] assms set_ownProps[of obj]
  by (simp add: map_of_inject_set)

lemma keys_base:
  "fst ` set (put ''format'' f (put ''quality'' q (spread (options cfg) [])))
     = set (defaultKeys cfg)"
proof -
  have "\<And>s t. fst ` set (fold (\<lambda>p. put (fst p) (snd p)) s t) = fst ` set s \<union> fst ` set t"
  proof -
    fix s :: jsobject and t
    show "fst ` set (fold (\<lambda>p. put (fst p) (snd p)) s t) = fst ` set s \<union> fst ` set t"
      by (induction s arbitrary: t) (auto simp: keys_put)
  qed
  then show ?thesis
    by (auto simp: keys_put spread_def set_ownProps defaultKeys_def)
qed

subsection \<open>Insertion order\<close>

text \<open>
  C3, as stated: two option maps with the same key/value pairs in different insertion
  orders give the same cache key. For a conversion to \<^verbatim>\<open>png\<close> the options
  \<^verbatim>\<open>{effort: 6, lossless: true}\<close> and \<^verbatim>\<open>{lossless: true, effort: 6}\<close> give different keys.
\<close>

theorem insertion_order_changes_the_cache_key:
  "set [(''effort'', JNum 6), (''lossless'', JBool True)]
     = set [(''lossless'', JBool True), (''effort'', JNum 6)]
   \<and> cacheKey ''in/a.jpg'' (mergedOptions png ''png'' [(''effort'', JNum 6), (''lossless'', JBool True)])
       \<noteq> cacheKey ''in/a.jpg'' (mergedOptions png ''png'' [(''lossless'', JBool True), (''effort'', JNum 6)])"
proof -
  have "set [(''effort'', JNum 6), (''lossless'', JBool True)]
     = set [(''lossless'', JBool True), (''effort'', JNum 6)]" by auto
  moreover have "cacheKey ''in/a.jpg'' (mergedOptions png ''png'' [(''effort'', JNum 6), (''lossless'', JBool True)])
       \<noteq> cacheKey ''in/a.jpg'' (mergedOptions png ''png'' [(''lossless'', JBool True), (''effort'', JNum 6)])"
    by code_simp
  ultimately show ?thesis by blast
qed

text \<open>
  C3, amended. The cache key is the input path followed by the JSON text of the merged
  options in property order. Two option maps with the same key/value pairs give the same
  cache key when their keys that are not among the format's default keys, \<^verbatim>\<open>quality\<close> and
  \<^verbatim>\<open>format\<close> are enumerated in the same order; the order in which the other keys were
  inserted does not matter.
\<close>

theorem cache_key_depends_on_order_of_new_keys:
  assumes "distinct (map fst a)" and "distinct (map fst b)" and "map_of a = map_of b"
    and "filter (\<lambda>q. fst q \<notin> set (defaultKeys cfg)) (ownProps a)
           = filter (\<lambda>q. fst q \<notin> set (defaultKeys cfg)) (ownProps b)"
  shows "cacheKey input (mergedOptions cfg format a) = cacheKey input (mergedOptions cfg format b)"
proof -
  let ?base = "put ''format'' (JStr format)
                 (put ''quality'' (JNum (defaultQuality cfg)) (spread (options cfg) []))"
  have db: "distinct (map fst ?base)"
    by (simp add: spread_def distinct_fold_put distinct_put)
  have kb: "fst ` set ?base = set (defaultKeys cfg)" by (rule keys_base)
  have ma: "map_of (ownProps a) = map_of (ownProps b)"
    using assms(1-3) by (simp add: map_of_ownProps)
  have "mergedOptions cfg format a = mergedOptions cfg format b"
    unfolding mergedOptions_def spread_def[of a] spread_def[of b]
      fold_put_distinct[OF distinct_ownProps[OF assms(1)] db]
      fold_put_distinct[OF distinct_ownProps[OF assms(2)] db] kb ma assms(4) ..
  then show ?thesis by simp
qed

theorem cache_key_depends_on_order_of_new_keys_witness:
  "distinct (map fst [(''quality'', JNum 90), (''palette'', JBool False), (''effort'', JNum 6)])
   \<and> distinct (map fst [(''palette'', JBool False), (''effort'', JNum 6), (''quality'', JNum 90)])
   \<and> cacheKey ''in/a.jpg'' (mergedOptions png ''png''
         [(''quality'', JNum 90), (''palette'', JBool False), (''effort'', JNum 6)])
     = cacheKey ''in/a.jpg'' (mergedOptions png ''png''
         [(''palette'', JBool False), (''effort'', JNum 6), (''quality'', JNum 90)])"
proof -
  let ?a = "[(''quality'', JNum 90), (''palette'', JBool False), (''effort'', JNum 6)]"
  let ?b = "[(''palette'', JBool False), (''effort'', JNum 6), (''quality'', JNum 90)]"
  have d: "distinct (map fst ?a)" "distinct (map fst ?b)" by simp_all
  have m: "map_of ?a = map_of ?b" by (auto simp: fun_eq_iff)
  have f: "filter (\<lambda>q. fst q \<notin> set (defaultKeys png)) (ownProps ?a)
           = filter (\<lambda>q. fst q \<notin> set (defaultKeys png)) (ownProps ?b)" by code_simp
  from cache_key_depends_on_order_of_new_keys[OF d m f, of "''in/a.jpg''" "''png''"] d
  show ?thesis by simp
qed

subsection \<open>The format entry\<close>

text \<open>
  C9, as stated: the cache key always includes the target format name, so that the same
  input with the same caller options and different target formats never meets one cache
  entry. With the caller options above, the conversions of one file to \<^verbatim>\<open>jpeg\<close> and to
  \<^verbatim>\<open>png\<close> have the same cache key, and the second one is answered from the cache.
\<close>

theorem overridden_format_entry_collides:
  "validateFormat ''in/a.webp'' ''jpeg'' = Inr jpeg
   \<and> validateFormat ''in/a.webp'' ''png'' = Inr png
   \<and> cacheKey ''in/a.webp'' (mergedOptions jpeg ''jpeg'' overriding_options)
       = cacheKey ''in/a.webp'' (mergedOptions png ''png'' overriding_options)
   \<and> skipped (statistics (snd jpeg_then_png)) = 1
   \<and> processed (statistics (snd jpeg_then_png)) = 1"
  unfolding jpeg_then_png_def by code_simp

text \<open>
  C9, amended. When the caller's options have no \<^verbatim>\<open>format\<close> entry of their own, the merged
  options hold the target format name under \<^verbatim>\<open>format\<close>, and two conversions of the same
  input with the same caller options and different target format names have different
  cache keys.
\<close>

theorem format_name_separates_cache_keys:
  assumes "''format'' \<notin> fst ` set processingOptions" and "format1 \<noteq> format2"
  shows "get (mergedOptions cfg1 format1 processingOptions) ''format'' = JStr format1
         \<and> cacheKey input (mergedOptions cfg1 format1 processingOptions)
             \<noteq> cacheKey input (mergedOptions cfg2 format2 processingOptions)"
proof -
  let ?m1 = "mergedOptions cfg1 format1 processingOptions"
  let ?m2 = "mergedOptions cfg2 format2 processingOptions"
  have f1: "map_of ?m1 ''format'' = Some (JStr format1)"
    and f2: "map_of ?m2 ''format'' = Some (JStr format2)"
    using assms(1) by (simp_all add: mergedOptions_format)
  from f1 have g: "get ?m1 ''format'' = JStr format1" by (simp add: get_def)
  have "cacheKey input ?m1 \<noteq> cacheKey input ?m2"
  proof
    assume "cacheKey input ?m1 = cacheKey input ?m2"
    then have "stringify ?m1 = stringify ?m2" by (simp add: cacheKey_def)
    then have eq: "json_members (ownProps ?m1) = json_members (ownProps ?m2)"
      by (rule stringify_members)
    from f1 have "(''format'', JStr format1) \<in> set (ownProps ?m1)"
      by (simp add: set_ownProps map_of_SomeD)
    then have "json_quote ''format'' @ CHR '':'' # json_quote format1
        \<in> set (json_members (ownProps ?m1))"
      using json_members_elem[of "json_quote ''format'' @ CHR '':'' # json_quote format1"
          "ownProps ?m1"] by force
    then have "json_quote ''format'' @ CHR '':'' # json_quote format1
        \<in> set (json_members (ownProps ?m2))" using eq by simp
    then obtain k v t where kv: "(k, v) \<in> set (ownProps ?m2)" "json_value v = Some t"
      "json_quote ''format'' @ CHR '':'' # json_quote format1 = json_quote k @ CHR '':'' # t"
      using json_members_elem[of "json_quote ''format'' @ CHR '':'' # json_quote format1"
          "ownProps ?m2"] by blast
    from kv(3) have "json_quote ''format'' @ (CHR '':'' # json_quote format1)
        = json_quote k @ (CHR '':'' # t)" by simp
    from json_quote_prefix[OF this] have k: "k = ''format''" and t: "t = json_quote format1"
      by simp_all
    from kv(1) k have "(''format'', v) \<in> set ?m2" by (simp add: set_ownProps)
    with distinct_mergedOptions[of cfg2 format2 processingOptions] f2
    have "v = JStr format2" by (metis map_of_is_SomeI option.inject)
    with kv(2) t have "json_quote format2 = json_quote format1" by simp
    with json_quote_inject assms(2) show False by blast
  qed
  with g show ?thesis by simp
qed

theorem format_name_separates_cache_keys_witness:
  "''format'' \<notin> fst ` set [(''quality'', JNum 80)] \<and> ''jpeg'' \<noteq> ''png''
   \<and> get (mergedOptions jpeg ''jpeg'' [(''quality'', JNum 80)]) ''format'' = JStr ''jpeg''
   \<and> cacheKey ''in/a.webp'' (mergedOptions jpeg ''jpeg'' [(''quality'', JNum 80)])
       \<noteq> cacheKey ''in/a.webp'' (mergedOptions png ''png'' [(''quality'', JNum 80)])"
proof -
  have h: "''format'' \<notin> fst ` set [(''quality'', JNum 80)]" "''jpeg'' \<noteq> ''png''" by simp_all
  from format_name_separates_cache_keys[OF h, of jpeg "''in/a.webp''" png] h
  show ?thesis by simp
qed

end
